theory Spec2Isabelle
  imports
    Complex_Main
    "HOL-Library.Multiset"
    "HOL-Library.Product_Lexorder"
    "HOL-Library.Char_ord"
    "HOL-Library.List_Lexorder"
    "HOL-Library.AList"
begin

section \<open>Series operations of the data-frame library, as the pipeline uses them\<close>

text \<open>
  A numeric column is a list of cells, one per row of the frame in frame order. A cell is
  \<open>Some x\<close> for a number and \<open>None\<close> for a missing value (NaN). Numbers are exact reals:
  rounding of the machine floats and the final casts to 32-bit floats are not modelled.
\<close>

type_synonym series = "real option list"

fun dropna :: "'a option list \<Rightarrow> 'a list" where
  "dropna [] = []"
| "dropna (None # s) = dropna s"
| "dropna (Some x # s) = x # dropna s"

text \<open>\<open>s.shift()\<close>: every value moves one position down, the first position is missing.\<close>

definition shift :: "'a option list \<Rightarrow> 'a option list" where
  "shift s = (if s = [] then [] else None # butlast s)"

text \<open>
  \<open>s.rolling(window=w, min_periods=1)\<close>: the window of position \<open>i\<close> holds the positions
  \<open>i - w + 1 .. i\<close> that exist; an aggregate is missing unless the window holds at least one
  non-missing observation.
\<close>

definition rolling_window :: "nat \<Rightarrow> 'a list \<Rightarrow> nat \<Rightarrow> 'a list" where
  "rolling_window w s i = drop (Suc i - w) (take (Suc i) s)"

definition rolling_sum :: "nat \<Rightarrow> series \<Rightarrow> series" where
  "rolling_sum w s =
     map (\<lambda>i. let obs = dropna (rolling_window w s i)
              in if length obs < 1 then None else Some (sum_list obs))
         [0..<length s]"

definition rolling_mean :: "nat \<Rightarrow> series \<Rightarrow> series" where
  "rolling_mean w s =
     map (\<lambda>i. let obs = dropna (rolling_window w s i)
              in if length obs < 1 then None else Some (sum_list obs / real (length obs)))
         [0..<length s]"

text \<open>\<open>fillna\<close> with a number, with a scalar that may itself be missing, and with a series.\<close>

definition fillna0 :: "series \<Rightarrow> real list" where
  "fillna0 s = map (\<lambda>v. case v of None \<Rightarrow> 0 | Some x \<Rightarrow> x) s"

definition fillna_scalar :: "real option \<Rightarrow> series \<Rightarrow> series" where
  "fillna_scalar d s = map (\<lambda>v. case v of None \<Rightarrow> d | Some x \<Rightarrow> Some x) s"

definition fillna_series :: "series \<Rightarrow> series \<Rightarrow> series" where
  "fillna_series fb s =
     map (\<lambda>i. case s ! i of None \<Rightarrow> (if i < length fb then fb ! i else None) | Some x \<Rightarrow> Some x)
         [0..<length s]"

text \<open>
  \<open>groupby(key).cumcount()\<close> numbers the rows of each group from 0 in frame order;
  \<open>groupby(key)[col].transform(f)\<close> applies \<open>f\<close> to the column of each group (its rows in
  frame order) and puts every result back on the row it came from.
\<close>

definition cumcount :: "'k list \<Rightarrow> nat list" where
  "cumcount ks = map (\<lambda>i. length (filter (\<lambda>k. k = ks ! i) (take i ks))) [0..<length ks]"

definition group_vals :: "'k list \<Rightarrow> 'a list \<Rightarrow> 'k \<Rightarrow> 'a list" where
  "group_vals ks vs k = map snd (filter (\<lambda>p. fst p = k) (zip ks vs))"

definition group_transform :: "'k list \<Rightarrow> 'a list \<Rightarrow> ('a list \<Rightarrow> 'b list) \<Rightarrow> 'b list" where
  "group_transform ks vs f =
     map (\<lambda>i. f (group_vals ks vs (ks ! i)) ! (cumcount ks ! i)) [0..<length ks]"

text \<open>\<open>s.diff()\<close>: the difference to the previous position, missing at the first.\<close>

definition diff :: "int list \<Rightarrow> int option list" where
  "diff s = map (\<lambda>i. if i = 0 then None else Some (s ! i - s ! (i - 1))) [0..<length s]"

text \<open>Subtraction of two cells: missing as soon as one operand is.\<close>

definition sub_cell :: "real option \<Rightarrow> real option \<Rightarrow> real option" where
  "sub_cell a b = (case (a, b) of (Some x, Some y) \<Rightarrow> Some (x - y) | _ \<Rightarrow> None)"

text \<open>The most recent \<open>w\<close> entries of a history listed oldest first.\<close>

definition lastn :: "nat \<Rightarrow> 'a list \<Rightarrow> 'a list" where
  "lastn w xs = drop (length xs - w) xs"


section \<open>The team-centric view (\<open>analysis/build_league_results_v2.py\<close>)\<close>

text \<open>
  A row of the match table, with the columns \<open>compute_team_view\<close> reads. The kickoff
  timestamp is a number of seconds; goals and expected goals were coerced to numbers by the
  loader and may be missing.
\<close>

record match_rec =
  match_id :: int
  match_datetime_utc :: int
  season :: int
  home_team_id :: int
  home_team_name :: string
  away_team_id :: int
  away_team_name :: string
  home_goals :: "real option"
  away_goals :: "real option"
  home_xg :: "real option"
  away_xg :: "real option"
  match_outcome_code :: string

text \<open>A row of \<open>home_df\<close> and \<open>away_df\<close>, and a row of the long frame with the added columns.\<close>

record team_row =
  t_match_id :: int
  t_datetime :: int
  t_season :: int
  team_id :: int
  team_name :: string
  points :: int
  goals_for :: "real option"
  goals_against :: "real option"
  xg_for :: "real option"
  xg_against :: "real option"
  is_home :: int

record long_row = team_row +
  goal_diff :: "real option"
  xg_diff :: "real option"
  match_number :: nat
  rest_days :: "real option"

fun outcome_points :: "string \<Rightarrow> int \<times> int" where
  "outcome_points code =
     (if code = ''H'' then (3, 0) else if code = ''A'' then (0, 3) else (1, 1))"

definition home_row :: "match_rec \<Rightarrow> team_row" where
  "home_row m =
     \<lparr> t_match_id = match_id m, t_datetime = match_datetime_utc m, t_season = season m,
       team_id = home_team_id m, team_name = home_team_name m,
       points = fst (outcome_points (match_outcome_code m)),
       goals_for = home_goals m, goals_against = away_goals m,
       xg_for = home_xg m, xg_against = away_xg m, is_home = 1 \<rparr>"

definition away_row :: "match_rec \<Rightarrow> team_row" where
  "away_row m =
     \<lparr> t_match_id = match_id m, t_datetime = match_datetime_utc m, t_season = season m,
       team_id = away_team_id m, team_name = away_team_name m,
       points = snd (outcome_points (match_outcome_code m)),
       goals_for = away_goals m, goals_against = home_goals m,
       xg_for = away_xg m, xg_against = home_xg m, is_home = 0 \<rparr>"

text \<open>
  \<open>pd.concat([home_df, away_df]).sort_values(["team_id", "match_datetime_utc"])\<close>: the sort on
  two columns is stable, rows with equal keys keep their order.
\<close>

definition concat_sorted :: "match_rec list \<Rightarrow> team_row list" where
  "concat_sorted matches =
     sort_key (\<lambda>r. (team_id r, t_datetime r)) (map home_row matches @ map away_row matches)"

definition add_view_columns :: "team_row \<Rightarrow> nat \<Rightarrow> int option \<Rightarrow> long_row" where
  "add_view_columns r n d =
     team_row.extend r
       (long_row.fields (sub_cell (goals_for r) (goals_against r))
                        (sub_cell (xg_for r) (xg_against r))
                        n
                        (map_option (\<lambda>secs. real_of_int secs / 86400) d))"

definition compute_team_view :: "match_rec list \<Rightarrow> long_row list" where
  "compute_team_view matches =
     (let long_df = concat_sorted matches;
          ks = map team_id long_df;
          numbers = cumcount ks;
          deltas = group_transform ks (map t_datetime long_df) diff
      in map (\<lambda>i. add_view_columns (long_df ! i) (numbers ! i) (deltas ! i))
             [0..<length long_df])"


section \<open>Rolling aggregates (\<open>add_rolling_features\<close>)\<close>

text \<open>The keys of \<open>feature_specs\<close> and the column of the long frame each one names.\<close>

datatype metric = Points | Goals_for | Goals_against | Goal_diff | Xg_for | Xg_against | Xg_diff

fun metric_col :: "metric \<Rightarrow> long_row \<Rightarrow> real option" where
  "metric_col Points r = Some (real_of_int (points r))"
| "metric_col Goals_for r = goals_for r"
| "metric_col Goals_against r = goals_against r"
| "metric_col Goal_diff r = goal_diff r"
| "metric_col Xg_for r = xg_for r"
| "metric_col Xg_against r = xg_against r"
| "metric_col Xg_diff r = xg_diff r"

definition windows :: "nat list" where
  "windows = [3, 5, 10]"

text \<open>
  The column \<open>{col}_last_{window}\<close> of the frame \<open>add_rolling_features\<close> returns:
  per team, \<open>s.shift().rolling(window=w, min_periods=1).sum()\<close>, and at the end of the
  function \<open>long_df.fillna(0)\<close>.
\<close>

definition rolling_col :: "long_row list \<Rightarrow> metric \<Rightarrow> nat \<Rightarrow> series" where
  "rolling_col long_df col w =
     group_transform (map team_id long_df) (map (metric_col col) long_df)
       (\<lambda>s. rolling_sum w (shift s))"

definition add_rolling_features :: "long_row list \<Rightarrow> metric \<Rightarrow> nat \<Rightarrow> real list" where
  "add_rolling_features long_df col w = fillna0 (rolling_col long_df col w)"


section \<open>The market block (\<open>add_market_features\<close>)\<close>

text \<open>
  The three forecast columns of a fixture row. The loader coerces them to numbers, so a cell
  that did not parse is missing. The function goes on to derive the edge, the expected points,
  the entropy, the log-odds and the largest probability from the three columns once they are
  renormalised; those derived columns are not part of this model.
\<close>

record forecast_row =
  forecast_home_win :: "real option"
  forecast_draw :: "real option"
  forecast_away_win :: "real option"

definition epsilon :: real where
  "epsilon = 1 / 1000000"

text \<open>\<open>Series.clip(lower, upper)\<close> leaves a missing cell missing.\<close>

definition clip_value :: "real \<Rightarrow> real \<Rightarrow> real \<Rightarrow> real" where
  "clip_value lo hi x = (if x < lo then lo else if hi < x then hi else x)"

definition clip :: "real \<Rightarrow> real \<Rightarrow> real option \<Rightarrow> real option" where
  "clip lo hi v = map_option (clip_value lo hi) v"

text \<open>
  Sum and quotient of two cells. A quotient by zero is an infinity or NaN in the source, not a
  number; the model has no number for it either.
\<close>

definition add_cell :: "real option \<Rightarrow> real option \<Rightarrow> real option" where
  "add_cell a b = (case (a, b) of (Some x, Some y) \<Rightarrow> Some (x + y) | _ \<Rightarrow> None)"

definition div_cell :: "real option \<Rightarrow> real option \<Rightarrow> real option" where
  "div_cell a b =
     (case (a, b) of (Some x, Some y) \<Rightarrow> if y = 0 then None else Some (x / y) | _ \<Rightarrow> None)"

definition add_market_features :: "forecast_row \<Rightarrow> forecast_row" where
  "add_market_features fr =
     (let h = clip epsilon (1 - epsilon) (forecast_home_win fr);
          d = clip epsilon (1 - epsilon) (forecast_draw fr);
          a = clip epsilon (1 - epsilon) (forecast_away_win fr);
          total = add_cell (add_cell h d) a
      in \<lparr> forecast_home_win = div_cell h total,
           forecast_draw = div_cell d total,
           forecast_away_win = div_cell a total \<rparr>)"


section \<open>The feature cache (\<open>pipelines/feature_store.py\<close>, class \<open>FeatureCache\<close>)\<close>

text \<open>
  A feature payload is a dictionary from feature names to floats, kept in insertion order. The
  \<open>payload\<close> column holds its JSON text, modelled by the document the text denotes: an object
  whose members are the entries of the dictionary. The table \<open>feature_cache\<close> maps its
  four-part primary key to the other columns of the row.
\<close>

type_synonym payload = "(string \<times> real) list"

datatype json = JObject payload

definition json_dumps :: "payload \<Rightarrow> json" where
  "json_dumps feats = JObject feats"

fun json_loads :: "json \<Rightarrow> payload" where
  "json_loads (JObject members) = members"

record cache_row =
  c_match_id :: int
  c_dataset_mtime :: real
  c_payload :: json

type_synonym feature_cache = "string \<times> string \<times> string \<times> string \<rightharpoonup> cache_row"

definition FeatureCache_get ::
  "feature_cache \<Rightarrow> string \<Rightarrow> string \<Rightarrow> string \<Rightarrow> string \<Rightarrow> real \<Rightarrow> payload option" where
  "FeatureCache_get db version season_key home away mtime =
     (case db (version, season_key, home, away) of
        None \<Rightarrow> None
      | Some row \<Rightarrow>
          if \<bar>c_dataset_mtime row - mtime\<bar> > 1 / 1000000 then None
          else Some (json_loads (c_payload row)))"

text \<open>\<open>INSERT OR REPLACE\<close>: the row of the key is created or overwritten.\<close>

definition FeatureCache_set ::
  "feature_cache \<Rightarrow> string \<Rightarrow> string \<Rightarrow> string \<Rightarrow> string \<Rightarrow> real \<Rightarrow> int \<Rightarrow> payload
     \<Rightarrow> feature_cache" where
  "FeatureCache_set db version season_key home away mtime mid feats =
     db((version, season_key, home, away) \<mapsto>
          \<lparr> c_match_id = mid, c_dataset_mtime = mtime, c_payload = json_dumps feats \<rparr>)"


section \<open>The feature store (class \<open>FeatureStore\<close>)\<close>

subsection \<open>Strings\<close>

text \<open>
  \<open>str.lower\<close> and \<open>str.strip\<close> on the ASCII range: the 26 capital letters are lowered and
  every other byte is kept; the blanks stripped are the space, the control characters
  \<open>0x09\<close> to \<open>0x0D\<close> and \<open>0x1C\<close> to \<open>0x1F\<close>.
\<close>

definition lower_char :: "char \<Rightarrow> char" where
  "lower_char c =
     (case map_of (zip ''ABCDEFGHIJKLMNOPQRSTUVWXYZ'' ''abcdefghijklmnopqrstuvwxyz'') c of
        None \<Rightarrow> c | Some l \<Rightarrow> l)"

definition lower :: "string \<Rightarrow> string" where
  "lower s = map lower_char s"

definition is_space :: "char \<Rightarrow> bool" where
  "is_space c = (c \<in> set [CHR '' '', CHR 0x09, CHR 0x0A, CHR 0x0B, CHR 0x0C, CHR 0x0D,
                            CHR 0x1C, CHR 0x1D, CHR 0x1E, CHR 0x1F])"

definition strip :: "string \<Rightarrow> string" where
  "strip s = rev (dropWhile is_space (rev (dropWhile is_space s)))"

definition normalize_name :: "string \<Rightarrow> string" where
  "normalize_name v = lower (strip v)"

subsection \<open>The loaded table and the store\<close>

text \<open>
  A row of the loaded table: the four identifying columns, and the numeric columns by name. A
  numeric cell is an integer, a float, or NaN; a name the table has no column for is not in the
  map. The \<open>season\<close> column holds strings (\<open>astype(str)\<close> at load time).
\<close>

datatype cell = IntV int | FloatV real | NaN

record fixture_row =
  row_match_id :: int
  row_season :: string
  row_home_team_name :: string
  row_away_team_name :: string
  row_cells :: "string \<rightharpoonup> cell"

datatype FeatureOrigin = DIRECT | DERIVED | UNKNOWN

record FixtureFeatures =
  ff_match_id :: int
  home_team :: string
  away_team :: string
  ff_season :: string
  features :: payload

text \<open>
  The state of a store once its table is loaded. \<open>warnings\<close> is the record of the calls of
  \<open>LOGGER.warning\<close> made by the store since it was built, oldest first, each by the feature
  name it reports. \<open>cache\<close> is \<open>None\<close> for a store built with \<open>cache_path=None\<close>.
\<close>

record FeatureStore =
  dataset_version :: string
  dataset_mtime :: real
  df :: "fixture_row list"
  baseline_columns :: "string set"
  derived_columns :: "string set"
  required_features :: "string list"
  unknown_features_logged :: "string set"
  cache :: "feature_cache option"
  warnings :: "string list"

text \<open>The \<open>ValueError\<close> that \<open>get_fixture\<close> and \<open>get_fixture_by_id\<close> raise when no row matches.\<close>

datatype error = NotFound

text \<open>\<open>self.feature_lineage.get(feature, FeatureOrigin.UNKNOWN)\<close>.\<close>

definition feature_lineage :: "FeatureStore \<Rightarrow> string \<Rightarrow> FeatureOrigin" where
  "feature_lineage st feature =
     (if feature \<in> set (required_features st) then
        (if feature \<in> baseline_columns st then DIRECT
         else if feature \<in> derived_columns st then DERIVED
         else UNKNOWN)
      else UNKNOWN)"

text \<open>
  \<open>row.get(feature)\<close> read as the loop reads it: \<open>None\<close> where \<open>pd.isna(value)\<close> holds (no such
  column, or NaN), and otherwise \<open>float(value)\<close>.
\<close>

definition row_get :: "fixture_row \<Rightarrow> string \<Rightarrow> real option" where
  "row_get row feature =
     (case row_cells row feature of
        None \<Rightarrow> None
      | Some NaN \<Rightarrow> None
      | Some (IntV n) \<Rightarrow> Some (real_of_int n)
      | Some (FloatV x) \<Rightarrow> Some x)"

text \<open>
  One turn of the loop over \<open>self.required_features\<close>: the dictionary built so far and the
  store go in, and come out updated.
\<close>

definition resolve_feature ::
  "fixture_row \<Rightarrow> string \<Rightarrow> payload \<times> FeatureStore \<Rightarrow> payload \<times> FeatureStore" where
  "resolve_feature row feature acc =
     (case acc of (feats, st) \<Rightarrow>
        (case row_get row feature of
           None \<Rightarrow>
             (AList.update feature 0 feats,
              if feature_lineage st feature = UNKNOWN \<and> feature \<notin> unknown_features_logged st
              then st\<lparr> warnings := warnings st @ [feature],
                       unknown_features_logged := insert feature (unknown_features_logged st) \<rparr>
              else st)
         | Some x \<Rightarrow> (AList.update feature x feats, st)))"

definition cache_lookup :: "FeatureStore \<Rightarrow> fixture_row \<Rightarrow> payload option" where
  "cache_lookup st row =
     (case cache st of
        None \<Rightarrow> None
      | Some db \<Rightarrow>
          FeatureCache_get db (dataset_version st) (normalize_name (row_season row))
            (normalize_name (row_home_team_name row)) (normalize_name (row_away_team_name row))
            (dataset_mtime st))"

definition fixture_of :: "fixture_row \<Rightarrow> payload \<Rightarrow> FixtureFeatures" where
  "fixture_of row feats =
     \<lparr> ff_match_id = row_match_id row, home_team = row_home_team_name row,
       away_team = row_away_team_name row, ff_season = row_season row, features = feats \<rparr>"

text \<open>
  \<open>_build_features_from_row\<close>: a cached payload that is not empty is returned as it is;
  otherwise the features are resolved from the row and written to the cache.
\<close>

definition build_features_from_row ::
  "FeatureStore \<Rightarrow> fixture_row \<Rightarrow> FixtureFeatures \<times> FeatureStore" where
  "build_features_from_row st row =
     (let cached = cache_lookup st row
      in if cached \<noteq> None \<and> cached \<noteq> Some [] then (fixture_of row (the cached), st)
         else
           (case fold (resolve_feature row) (required_features st) ([], st) of
              (feats, st') \<Rightarrow>
                (fixture_of row feats,
                 case cache st' of
                   None \<Rightarrow> st'
                 | Some db \<Rightarrow>
                     st'\<lparr> cache := Some (FeatureCache_set db (dataset_version st')
                              (normalize_name (row_season row))
                              (normalize_name (row_home_team_name row))
                              (normalize_name (row_away_team_name row))
                              (dataset_mtime st') (row_match_id row) feats) \<rparr>)))"

definition get_fixture_by_id ::
  "FeatureStore \<Rightarrow> int \<Rightarrow> error + FixtureFeatures \<times> FeatureStore" where
  "get_fixture_by_id st mid =
     (case filter (\<lambda>r. row_match_id r = mid) (df st) of
        [] \<Rightarrow> Inl NotFound
      | row # _ \<Rightarrow> Inr (build_features_from_row st row))"

text \<open>
  \<open>latest_season\<close>: the greatest season string of the table, in the order of strings. The
  maximum of an empty column is NaN, which \<open>or\<close> keeps and \<open>str\<close> prints as \<open>nan\<close>; an empty
  string gives way to the default \<open>"7"\<close>.
\<close>

definition latest_season :: "FeatureStore \<Rightarrow> string" where
  "latest_season st =
     (let latest = (if df st = [] then ''nan'' else Max (set (map row_season (df st))))
      in if latest = [] then ''7'' else latest)"

text \<open>\<open>season = season or self.latest_season\<close>.\<close>

definition season_or_latest :: "FeatureStore \<Rightarrow> string option \<Rightarrow> string" where
  "season_or_latest st season_arg =
     (case season_arg of None \<Rightarrow> latest_season st
      | Some s \<Rightarrow> if s = [] then latest_season st else s)"

definition fixture_mask :: "string \<Rightarrow> string \<Rightarrow> string \<Rightarrow> fixture_row \<Rightarrow> bool" where
  "fixture_mask season_str home away r =
     (row_season r = season_str \<and> lower (row_home_team_name r) = lower home
      \<and> lower (row_away_team_name r) = lower away)"

definition get_fixture ::
  "FeatureStore \<Rightarrow> string option \<Rightarrow> string \<Rightarrow> string \<Rightarrow> error + FixtureFeatures \<times> FeatureStore"
  where
  "get_fixture st season_arg home away =
     (case filter (fixture_mask (season_or_latest st season_arg) home away) (df st) of
        [] \<Rightarrow> Inl NotFound
      | row # _ \<Rightarrow> Inr (build_features_from_row st row))"

text \<open>
  The lifetime of a store is a sequence of lookups; a lookup that raises leaves the store as it
  was.
\<close>

datatype query = ByTeams "string option" string string | ById int

fun lookup :: "FeatureStore \<Rightarrow> query \<Rightarrow> error + FixtureFeatures \<times> FeatureStore" where
  "lookup st (ByTeams season_arg home away) = get_fixture st season_arg home away"
| "lookup st (ById mid) = get_fixture_by_id st mid"

fun lookups :: "FeatureStore \<Rightarrow> query list \<Rightarrow> FeatureStore" where
  "lookups st [] = st"
| "lookups st (q # qs) =
     lookups (case lookup st q of Inl e \<Rightarrow> st | Inr (fixture, st') \<Rightarrow> st') qs"

text \<open>What holds of the warning record throughout: no name twice, every name remembered.\<close>

definition warned_once :: "FeatureStore \<Rightarrow> bool" where
  "warned_once st =
     (distinct (warnings st) \<and> set (warnings st) \<subseteq> unknown_features_logged st)"


section \<open>Derived columns of the feature store (\<open>_augment_dataframe\<close>)\<close>

text \<open>
  The data frame the derivation works on: the rows of the loaded table and the names of its
  columns. The cell of a row under a column is read with \<open>row_get\<close>. The columns \<open>season\<close>,
  \<open>home_team_name\<close> and \<open>away_team_name\<close> are fields of every row: the loader of the store
  reads them before the derivation runs, so the tests of the source for their presence hold.
  Reading a column the frame does not have raises \<open>KeyError\<close>; a rolling window of 0 with
  \<open>min_periods=1\<close> is refused by the library with a \<open>ValueError\<close>. The rolling window is a
  natural number.
\<close>

record frame =
  columns :: "string set"
  rows :: "fixture_row list"

datatype frame_error = KeyError string | RollingWindowError

definition column :: "string \<Rightarrow> fixture_row list \<Rightarrow> series" where
  "column name table = map (\<lambda>r. row_get r name) table"

definition read_column :: "string \<Rightarrow> frame \<Rightarrow> frame_error + series" where
  "read_column name fr =
     (if name \<in> columns fr then Inr (column name (rows fr)) else Inl (KeyError name))"

text \<open>\<open>df[name] = values\<close>: the column is created or overwritten.\<close>

definition cell_of :: "real option \<Rightarrow> cell" where
  "cell_of v = (case v of None \<Rightarrow> NaN | Some x \<Rightarrow> FloatV x)"

definition set_column :: "string \<Rightarrow> series \<Rightarrow> frame \<Rightarrow> frame" where
  "set_column name vals fr =
     \<lparr> columns = insert name (columns fr),
       rows = map (\<lambda>(r, v). r\<lparr> row_cells := (row_cells r)(name \<mapsto> cell_of v) \<rparr>)
                  (zip (rows fr) vals) \<rparr>"

text \<open>
  \<open>df[name] = f(df)\<close> in a sequence of such assignments: an exception of an earlier one, or of
  \<open>f\<close>, ends the sequence.
\<close>

definition assign ::
  "string \<Rightarrow> (frame \<Rightarrow> frame_error + series) \<Rightarrow> frame_error + frame \<Rightarrow> frame_error + frame" where
  "assign name f acc =
     (case acc of
        Inl e \<Rightarrow> Inl e
      | Inr fr \<Rightarrow> (case f fr of Inl e \<Rightarrow> Inl e | Inr vals \<Rightarrow> Inr (set_column name vals fr)))"

datatype side = Home | Away

fun side_name :: "side \<Rightarrow> fixture_row \<Rightarrow> string" where
  "side_name Home r = row_home_team_name r"
| "side_name Away r = row_away_team_name r"

subsection \<open>Smoothed form (\<open>_prepare_smoothed_form\<close>, \<open>_smoothed_avg\<close>)\<close>

text \<open>
  \<open>groupby(keys).cumcount().clip(upper=window).astype(float) / window\<close>, the fraction of recent
  games, over the list of the rows' group keys. With a window of 0 every quotient is
  \<open>0.0 / 0\<close>, which is NaN.
\<close>

definition recent_games_frac :: "nat \<Rightarrow> 'k list \<Rightarrow> series" where
  "recent_games_frac window ks =
     map (\<lambda>c. if window = 0 then None else Some (real (min c window) / real window))
         (cumcount ks)"

text \<open>\<open>s.dropna().mean()\<close>: missing when nothing is left.\<close>

definition mean_dropna :: "series \<Rightarrow> real option" where
  "mean_dropna s =
     (let obs = dropna s in if obs = [] then None else Some (sum_list obs / real (length obs)))"

definition smoothed_avg :: "series \<Rightarrow> series \<Rightarrow> nat \<Rightarrow> series" where
  "smoothed_avg sum_series games_frac window =
     (let games = map (map_option (\<lambda>f. f * real window)) games_frac;
          per_match = map (\<lambda>(s, g). div_cell s (if g = Some 0 then None else g))
                          (zip sum_series games);
          prior = (case mean_dropna per_match of None \<Rightarrow> 0 | Some m \<Rightarrow> m);
          per_match_filled = map (\<lambda>v. case v of None \<Rightarrow> prior | Some x \<Rightarrow> x) per_match;
          alpha = map (clip 0 1) games_frac
      in map (\<lambda>(a, pm). map_option (\<lambda>w. w * pm + (1 - w) * prior) a)
             (zip alpha per_match_filled))"

text \<open>
  \<open>_prepare_smoothed_form\<close>, up to the averaged columns (lines 452 to 477; the gap columns it
  derives from them afterwards are not part of the model). The two fractions are computed only
  when the frame does not bring \<open>home_recent_games_frac\<close>. The source sorts the frame by
  kickoff before it counts; the loader has sorted it already, and the model takes the rows in
  that order. The ten averaged columns are computed only when the frame does not bring
  \<open>home_goals_for_avg5\<close> and has \<open>home_goals_for_last_5\<close>; each is the smoothed average of its
  \<open>*_last_5\<close> column with the fraction column of its side, in the order of the source.
\<close>

fun frac_name :: "side \<Rightarrow> string" where
  "frac_name Home = ''home_recent_games_frac''"
| "frac_name Away = ''away_recent_games_frac''"

definition side_key :: "side \<Rightarrow> fixture_row \<Rightarrow> string \<times> string" where
  "side_key s r = (row_season r, side_name s r)"

definition smoothed_columns :: "(string \<times> string \<times> side) list" where
  "smoothed_columns =
     [(''home_goals_for_avg5'', ''home_goals_for_last_5'', Home),
      (''home_goals_against_avg5'', ''home_goals_against_last_5'', Home),
      (''home_xg_for_avg5'', ''home_xg_for_last_5'', Home),
      (''home_xg_against_avg5'', ''home_xg_against_last_5'', Home),
      (''home_points_avg5'', ''home_points_last_5'', Home),
      (''away_goals_for_avg5'', ''away_goals_for_last_5'', Away),
      (''away_goals_against_avg5'', ''away_goals_against_last_5'', Away),
      (''away_xg_for_avg5'', ''away_xg_for_last_5'', Away),
      (''away_xg_against_avg5'', ''away_xg_against_last_5'', Away),
      (''away_points_avg5'', ''away_points_last_5'', Away)]"

text \<open>The ten window sums the averaged columns are computed from.\<close>

definition last5_names :: "string list" where
  "last5_names = map (\<lambda>(avg, last5, s). last5) smoothed_columns"

definition smoothed_of :: "string \<Rightarrow> string \<Rightarrow> nat \<Rightarrow> frame \<Rightarrow> frame_error + series" where
  "smoothed_of last5 frac_col window fr =
     (case read_column last5 fr of
        Inl e \<Rightarrow> Inl e
      | Inr totals \<Rightarrow>
          (case read_column frac_col fr of
             Inl e \<Rightarrow> Inl e
           | Inr fracs \<Rightarrow> Inr (smoothed_avg totals fracs window)))"

definition prepare_smoothed_form :: "nat \<Rightarrow> frame \<Rightarrow> frame_error + frame" where
  "prepare_smoothed_form window fr =
     (let fr1 =
            (if ''home_recent_games_frac'' \<notin> columns fr then
               set_column ''away_recent_games_frac''
                 (recent_games_frac window (map (side_key Away) (rows fr)))
                 (set_column ''home_recent_games_frac''
                    (recent_games_frac window (map (side_key Home) (rows fr))) fr)
             else fr)
      in if ''home_goals_for_avg5'' \<notin> columns fr1 \<and> ''home_goals_for_last_5'' \<in> columns fr1
         then fold (\<lambda>(avg, last5, s). assign avg (smoothed_of last5 (frac_name s) window))
                   smoothed_columns (Inr fr1)
         else Inr fr1)"

text \<open>
  What the fraction counts, read off the group keys: the earlier rows of the table with the
  same season and the same team on the same side. The per-match rate of a row is its window
  sum over its games, the smaller of that count and the window; it is available when the sum
  is present and the games are not zero. The global prior is the mean of the available rates of
  the table, or 0 when there is none.
\<close>

definition same_side_games :: "side \<Rightarrow> fixture_row list \<Rightarrow> nat \<Rightarrow> nat" where
  "same_side_games s table i =
     length (filter (\<lambda>r. row_season r = row_season (table ! i)
                          \<and> side_name s r = side_name s (table ! i))
                    (take i table))"

definition per_match_rate ::
  "side \<Rightarrow> string \<Rightarrow> nat \<Rightarrow> fixture_row list \<Rightarrow> nat \<Rightarrow> real option" where
  "per_match_rate s last5 window table j =
     (case row_get (table ! j) last5 of
        None \<Rightarrow> None
      | Some window_sum \<Rightarrow>
          if min (same_side_games s table j) window = 0 then None
          else Some (window_sum / real (min (same_side_games s table j) window)))"

definition global_prior_mean :: "side \<Rightarrow> string \<Rightarrow> nat \<Rightarrow> fixture_row list \<Rightarrow> real" where
  "global_prior_mean s last5 window table =
     (let rates = dropna (map (per_match_rate s last5 window table) [0..<length table])
      in if rates = [] then 0 else sum_list rates / real (length rates))"

text \<open>
  The claim in the words of the specification. The matches a team has played are its earlier
  appearances in the table, at home or away; the claimed value of a row is
  \<open>frac * (window_sum / games) + (1 - frac) * prior\<close> with \<open>games\<close> the smaller of the matches
  played and the window, and the prior for zero games. The claimed prior is the mean of the
  per-match rates so counted.
\<close>

definition matches_played :: "side \<Rightarrow> fixture_row list \<Rightarrow> nat \<Rightarrow> nat" where
  "matches_played s table i =
     length (filter (\<lambda>r. row_home_team_name r = side_name s (table ! i)
                          \<or> row_away_team_name r = side_name s (table ! i))
                    (take i table))"

definition claimed_smoothed ::
  "side \<Rightarrow> string \<Rightarrow> nat \<Rightarrow> fixture_row list \<Rightarrow> real \<Rightarrow> nat \<Rightarrow> real" where
  "claimed_smoothed s last5 window table prior i =
     (let games = real (min (matches_played s table i) window);
          frac = games / real window
      in case row_get (table ! i) last5 of
           Some window_sum \<Rightarrow>
             if games = 0 then prior else frac * (window_sum / games) + (1 - frac) * prior
         | None \<Rightarrow> prior)"

definition claimed_prior :: "side \<Rightarrow> string \<Rightarrow> nat \<Rightarrow> fixture_row list \<Rightarrow> real" where
  "claimed_prior s last5 window table =
     (let rates = dropna (map (\<lambda>j. case row_get (table ! j) last5 of
                                      None \<Rightarrow> None
                                    | Some window_sum \<Rightarrow>
                                        if min (matches_played s table j) window = 0 then None
                                        else Some (window_sum
                                                   / real (min (matches_played s table j) window)))
                              [0..<length table])
      in if rates = [] then 0 else sum_list rates / real (length rates))"

text \<open>The rate over the lists of keys and sums, for the proofs.\<close>

definition games_played :: "nat \<Rightarrow> 'k list \<Rightarrow> nat \<Rightarrow> nat" where
  "games_played window ks j = min (cumcount ks ! j) window"

definition rate_at :: "nat \<Rightarrow> 'k list \<Rightarrow> series \<Rightarrow> nat \<Rightarrow> real option" where
  "rate_at window ks totals j =
     (case totals ! j of None \<Rightarrow> None
      | Some x \<Rightarrow> if games_played window ks j = 0 then None
                  else Some (x / real (games_played window ks j)))"

subsection \<open>Shot features (\<open>_prepare_shot_features\<close>, \<open>_prior_rolling_mean\<close>)\<close>

text \<open>\<open>s.median()\<close> skips missing cells and is missing when nothing is left.\<close>

definition median :: "series \<Rightarrow> real option" where
  "median s =
     (let obs = sort (dropna s); n = length obs
      in if n = 0 then None
         else if odd n then Some (obs ! (n div 2))
         else Some ((obs ! (n div 2 - 1) + obs ! (n div 2)) / 2))"

text \<open>
  \<open>_prior_rolling_mean\<close>. The rolling object is built once per group, so a window of 0 raises
  as soon as the frame has a row.
\<close>

definition prior_rolling_values :: "'k list \<Rightarrow> series \<Rightarrow> nat \<Rightarrow> real list" where
  "prior_rolling_values ks vs window =
     (let rolled = group_transform ks vs (\<lambda>s. shift (rolling_mean window s));
          fallback = fillna_scalar (median vs) (group_transform ks vs shift)
      in fillna0 (fillna_series fallback rolled))"

definition prior_rolling_mean :: "'k list \<Rightarrow> series \<Rightarrow> nat \<Rightarrow> frame_error + real list" where
  "prior_rolling_mean ks vs window =
     (if window = 0 \<and> ks \<noteq> [] then Inl RollingWindowError
      else Inr (prior_rolling_values ks vs window))"

text \<open>
  \<open>_prepare_shot_features\<close>, up to the eight averaged columns (lines 491 to 511; the gaps,
  ratios and z-scores it derives from them afterwards are not part of the model, and its last
  loop, a cast and a \<open>fillna(0.0)\<close>, changes no value of the eight columns in exact numbers).
  The function returns at once unless the frame has both shot columns. It fills each shot
  column, \<open>fillna(median if pd.notna(median) else 0.0)\<close>, copies them to the two \<open>allowed\<close>
  columns, and adds the prior rolling means, grouped by the team name of the side, with the
  rolling window and with \<open>min(3, rolling_window)\<close>.
\<close>

definition fill_median :: "series \<Rightarrow> series" where
  "fill_median s = fillna_scalar (Some (case median s of None \<Rightarrow> 0 | Some m \<Rightarrow> m)) s"

definition shot_columns :: "nat \<Rightarrow> (string \<times> side \<times> string \<times> nat) list" where
  "shot_columns window =
     [(''home_shots_for_avg5'', Home, ''home_shots_for'', window),
      (''away_shots_for_avg5'', Away, ''away_shots_for'', window),
      (''home_shots_allowed_avg5'', Home, ''home_shots_allowed'', window),
      (''away_shots_allowed_avg5'', Away, ''away_shots_allowed'', window),
      (''home_shots_for_avg3'', Home, ''home_shots_for'', min 3 window),
      (''away_shots_for_avg3'', Away, ''away_shots_for'', min 3 window),
      (''home_shots_allowed_avg3'', Home, ''home_shots_allowed'', min 3 window),
      (''away_shots_allowed_avg3'', Away, ''away_shots_allowed'', min 3 window)]"

definition prior_mean_of :: "side \<Rightarrow> string \<Rightarrow> nat \<Rightarrow> frame \<Rightarrow> frame_error + series" where
  "prior_mean_of s value_col window fr =
     (case read_column value_col fr of
        Inl e \<Rightarrow> Inl e
      | Inr vs \<Rightarrow>
          (case prior_rolling_mean (map (side_name s) (rows fr)) vs window of
             Inl e \<Rightarrow> Inl e
           | Inr means \<Rightarrow> Inr (map Some means)))"

definition prepare_shot_features :: "nat \<Rightarrow> frame \<Rightarrow> frame_error + frame" where
  "prepare_shot_features window fr =
     (if \<not> {''home_shots_for'', ''away_shots_for''} \<subseteq> columns fr then Inr fr
      else
        (let fr1 = set_column ''home_shots_for''
                     (fill_median (column ''home_shots_for'' (rows fr))) fr;
             fr2 = set_column ''away_shots_for''
                     (fill_median (column ''away_shots_for'' (rows fr1))) fr1;
             fr3 = set_column ''home_shots_allowed'' (column ''away_shots_for'' (rows fr2)) fr2;
             fr4 = set_column ''away_shots_allowed'' (column ''home_shots_for'' (rows fr3)) fr3
         in fold (\<lambda>(avg, s, value_col, w). assign avg (prior_mean_of s value_col w))
                 (shot_columns window) (Inr fr4)))"

text \<open>The shot column of the frame a shot average is computed from.\<close>

definition shot_metric :: "string \<Rightarrow> string" where
  "shot_metric value_col =
     (if value_col = ''home_shots_allowed'' then ''away_shots_for''
      else if value_col = ''away_shots_allowed'' then ''home_shots_for''
      else value_col)"

text \<open>
  A frame keeps its rows' identifying fields and all columns outside a set of names, and
  loses no column: what a sequence of assignments to those names leaves of it.
\<close>

definition agrees :: "string set \<Rightarrow> frame \<Rightarrow> frame \<Rightarrow> bool" where
  "agrees names fr fr' =
     (length (rows fr') = length (rows fr)
      \<and> columns fr \<subseteq> columns fr'
      \<and> map row_season (rows fr') = map row_season (rows fr)
      \<and> map row_home_team_name (rows fr') = map row_home_team_name (rows fr)
      \<and> map row_away_team_name (rows fr') = map row_away_team_name (rows fr)
      \<and> (\<forall>n. n \<notin> names \<longrightarrow> column n (rows fr') = column n (rows fr)))"

text \<open>
  The cell of a row under a column in the frame a derivation returns, read as the resolver
  reads it; the exception when the derivation raised.
\<close>

definition cell_after :: "frame_error + frame \<Rightarrow> string \<Rightarrow> nat \<Rightarrow> frame_error + real option" where
  "cell_after res name i =
     (case res of Inl e \<Rightarrow> Inl e | Inr fr \<Rightarrow> Inr (row_get (rows fr ! i) name))"


section \<open>Example tables\<close>

definition demo_match :: "int \<Rightarrow> int \<Rightarrow> int \<Rightarrow> int \<Rightarrow> string \<Rightarrow> match_rec" where
  "demo_match mid ts h a code =
     \<lparr> match_id = mid, match_datetime_utc = ts, season = 2024,
       home_team_id = h, home_team_name = ''home'', away_team_id = a, away_team_name = ''away'',
       home_goals = Some 1, away_goals = Some 1, home_xg = None, away_xg = Some 1,
       match_outcome_code = code \<rparr>"

definition demo_matches :: "match_rec list" where
  "demo_matches =
     [demo_match 1 100 7 8 ''H'', demo_match 2 200 8 7 ''D'', demo_match 3 300 7 9 ''A'']"

definition demo_forecast :: forecast_row where
  "demo_forecast =
     \<lparr> forecast_home_win = Some (11 / 20), forecast_draw = Some (1 / 4),
       forecast_away_win = Some (1 / 5) \<rparr>"

definition missing_forecast :: forecast_row where
  "missing_forecast =
     \<lparr> forecast_home_win = None, forecast_draw = Some (3 / 10),
       forecast_away_win = Some (3 / 10) \<rparr>"

definition demo_row :: "int \<Rightarrow> string \<Rightarrow> string \<Rightarrow> string \<Rightarrow> fixture_row" where
  "demo_row mid s h a =
     \<lparr> row_match_id = mid, row_season = s, row_home_team_name = h, row_away_team_name = a,
       row_cells = [''prob_edge'' \<mapsto> FloatV (7 / 20), ''match_day_index'' \<mapsto> IntV 3,
                    ''elo_gap_pre'' \<mapsto> NaN] \<rparr>"

definition demo_store :: "feature_cache option \<Rightarrow> FeatureStore" where
  "demo_store c =
     \<lparr> dataset_version = ''7'', dataset_mtime = 1000,
       df = [demo_row 1 ''2024'' ''Arsenal'' ''Leeds'', demo_row 2 ''2025'' ''Arsenal'' ''Leeds''],
       baseline_columns = {''prob_edge'', ''match_day_index'', ''elo_gap_pre''},
       derived_columns = {},
       required_features =
         [''prob_edge'', ''match_day_index'', ''elo_gap_pre'', ''market_vs_elo_edge''],
       unknown_features_logged = {}, cache = c, warnings = [] \<rparr>"

text \<open>
  A frame with the ten \<open>*_last_5\<close> columns (every one of a row holds the same number) and the
  two shot columns, and no derived column yet.
\<close>

definition stat_row :: "string \<Rightarrow> string \<Rightarrow> int \<Rightarrow> cell \<Rightarrow> cell \<Rightarrow> fixture_row" where
  "stat_row h a goals home_shots away_shots =
     \<lparr> row_match_id = 0, row_season = ''2024'', row_home_team_name = h, row_away_team_name = a,
       row_cells = (\<lambda>name. if name \<in> set last5_names then Some (IntV goals)
                             else if name = ''home_shots_for'' then Some home_shots
                             else if name = ''away_shots_for'' then Some away_shots
                             else None) \<rparr>"

definition stat_frame :: frame where
  "stat_frame =
     \<lparr> columns = set last5_names \<union> {''home_shots_for'', ''away_shots_for''},
       rows = [stat_row ''Leeds'' ''Arsenal'' 0 (IntV 10) (IntV 7),
               stat_row ''Leeds'' ''Chelsea'' 4 (IntV 14) (IntV 9),
               stat_row ''Arsenal'' ''Leeds'' 1 (IntV 12) NaN,
               stat_row ''Everton'' ''Fulham'' 3 NaN (IntV 5)] \<rparr>"

text \<open>
  A cache file left by an earlier store of the same dataset file whose model list asked for
  \<open>prob_edge\<close> only.
\<close>

definition stale_cache :: feature_cache where
  "stale_cache =
     FeatureCache_set Map.empty ''7'' ''2025'' ''arsenal'' ''leeds'' 1000 2
       [(''prob_edge'', 7 / 20)]"


section \<open>Facts about the series operations\<close>

lemma length_cumcount [simp]: "length (cumcount ks) = length ks"
  by (simp add: cumcount_def)

lemma cumcount_nth:
  "i < length ks \<Longrightarrow> cumcount ks ! i = length (filter (\<lambda>k. k = ks ! i) (take i ks))"
  by (simp add: cumcount_def)

lemma length_group_transform [simp]: "length (group_transform ks vs f) = length ks"
  by (simp add: group_transform_def)

lemma length_shift [simp]: "length (shift s) = length s"
  by (simp add: shift_def)

lemma length_rolling_sum [simp]: "length (rolling_sum w s) = length s"
  by (simp add: rolling_sum_def)

lemma length_rolling_mean [simp]: "length (rolling_mean w s) = length s"
  by (simp add: rolling_mean_def)

lemma dropna_append [simp]: "dropna (xs @ ys) = dropna xs @ dropna ys"
  by (induction xs rule: dropna.induct) simp_all

lemma group_vals_append:
  "length ks = length vs \<Longrightarrow>
   group_vals (ks @ ks') (vs @ vs') k = group_vals ks vs k @ group_vals ks' vs' k"
  by (simp add: group_vals_def)

lemma length_group_vals:
  "length ks = length vs \<Longrightarrow> length (group_vals ks vs k) = length (filter (\<lambda>k'. k' = k) ks)"
proof (induction ks arbitrary: vs)
  case Nil
  then show ?case by (simp add: group_vals_def)
next
  case (Cons a ks)
  then obtain v vs' where vs: "vs = v # vs'" by (cases vs) auto
  with Cons show ?case by (simp add: group_vals_def)
qed

lemma group_vals_map:
  "group_vals (map key xs) (map val xs) k = map val (filter (\<lambda>r. key r = k) xs)"
  by (induction xs) (simp_all add: group_vals_def)

text \<open>
  Where a row sits in its group: the group's column, cut at the row's group number, is the
  column of the earlier rows of the group.
\<close>

lemma group_vals_take:
  assumes "length ks = length vs" "i < length ks"
  shows "take (cumcount ks ! i) (group_vals ks vs (ks ! i)) =
         group_vals (take i ks) (take i vs) (ks ! i)"
proof -
  have split: "group_vals ks vs (ks ! i) =
      group_vals (take i ks) (take i vs) (ks ! i) @ group_vals (drop i ks) (drop i vs) (ks ! i)"
    using group_vals_append [of "take i ks" "take i vs" "drop i ks" "drop i vs" "ks ! i"] assms
    by simp
  have "length (group_vals (take i ks) (take i vs) (ks ! i)) = cumcount ks ! i"
    using assms by (simp add: length_group_vals cumcount_nth)
  with split show ?thesis by simp
qed

lemma cumcount_less_group:
  assumes "length ks = length vs" "i < length ks"
  shows "cumcount ks ! i < length (group_vals ks vs (ks ! i))"
proof -
  have "ks = take i ks @ ks ! i # drop (Suc i) ks"
    using assms(2) by (simp add: id_take_nth_drop)
  then have "filter (\<lambda>k. k = ks ! i) ks =
      filter (\<lambda>k. k = ks ! i) (take i ks) @ ks ! i # filter (\<lambda>k. k = ks ! i) (drop (Suc i) ks)"
    by (metis (mono_tags, lifting) filter.simps(2) filter_append)
  then have "length (filter (\<lambda>k. k = ks ! i) ks) > length (filter (\<lambda>k. k = ks ! i) (take i ks))"
    by simp
  then show ?thesis
    using assms by (simp add: length_group_vals cumcount_nth)
qed

lemma group_transform_nth:
  "i < length ks \<Longrightarrow>
   group_transform ks vs f ! i = f (group_vals ks vs (ks ! i)) ! (cumcount ks ! i)"
  by (simp add: group_transform_def)

lemma dropna_map:
  "dropna (map f xs) = map (\<lambda>x. the (f x)) (filter (\<lambda>x. f x \<noteq> None) xs)"
proof (induction xs)
  case Nil
  show ?case by simp
next
  case (Cons x xs)
  then show ?case by (cases "f x") simp_all
qed

lemma shift_first: "s \<noteq> [] \<Longrightarrow> shift s ! 0 = None"
  by (simp add: shift_def)

lemma first_in_group:
  assumes "i < length ks" "ks ! i \<notin> set (take i ks)"
  shows "cumcount ks ! i = 0"
proof -
  have "filter (\<lambda>k. k = ks ! i) (take i ks) = []"
    using assms(2) by (auto simp: filter_empty_conv)
  then show ?thesis using assms(1) by (simp add: cumcount_nth)
qed

lemma fillna0_nth:
  "i < length s \<Longrightarrow> fillna0 s ! i = (case s ! i of None \<Rightarrow> 0 | Some x \<Rightarrow> x)"
  by (simp add: fillna0_def)

lemma fillna_scalar_nth:
  "i < length s \<Longrightarrow> fillna_scalar d s ! i = (case s ! i of None \<Rightarrow> d | Some x \<Rightarrow> Some x)"
  by (simp add: fillna_scalar_def)

lemma fillna_series_nth:
  "i < length s \<Longrightarrow> i < length fb \<Longrightarrow>
   fillna_series fb s ! i = (case s ! i of None \<Rightarrow> fb ! i | Some x \<Rightarrow> Some x)"
  by (simp add: fillna_series_def split: option.splits)

lemma lastn_take:
  "p \<le> length g \<Longrightarrow> drop (p - w) (take p g) = lastn w (take p g)"
  by (simp add: lastn_def min_def)

lemma count_prefix_mono:
  assumes "i < j" "j \<le> length xs" "P (xs ! i)"
  shows "length (filter P (take i xs)) < length (filter P (take j xs))"
proof -
  have "i < length (take j xs)" using assms(1,2) by simp
  then have "take j xs = take i (take j xs) @ take j xs ! i # drop (Suc i) (take j xs)"
    by (rule id_take_nth_drop)
  moreover have "take i (take j xs) = take i xs" using assms(1) by (simp add: min_def)
  moreover have "take j xs ! i = xs ! i" using assms(1) by simp
  ultimately have "take j xs = take i xs @ xs ! i # drop (Suc i) (take j xs)" by simp
  then have "filter P (take j xs) = filter P (take i xs @ xs ! i # drop (Suc i) (take j xs))"
    by simp
  also have "\<dots> = filter P (take i xs) @ xs ! i # filter P (drop (Suc i) (take j xs))"
    using assms(3) by simp
  finally show ?thesis by simp
qed

lemma distinct_keys_earlier:
  assumes "distinct (map f (filter P xs))" "j < i" "i < length xs" "P (xs ! j)" "P (xs ! i)"
  shows "f (xs ! j) \<noteq> f (xs ! i)"
proof -
  have "xs = take i xs @ xs ! i # drop (Suc i) xs"
    using assms(3) by (rule id_take_nth_drop)
  then have "filter P xs = filter P (take i xs @ xs ! i # drop (Suc i) xs)"
    by simp
  also have "\<dots> = filter P (take i xs) @ xs ! i # filter P (drop (Suc i) xs)"
    using assms(5) by simp
  finally have "distinct (map f (filter P (take i xs) @ xs ! i # filter P (drop (Suc i) xs)))"
    using assms(1) by simp
  then have out: "f (xs ! i) \<notin> f ` set (filter P (take i xs))"
    by auto
  have "take i xs ! j = xs ! j" "j < length (take i xs)"
    using assms(2,3) by simp_all
  then have "xs ! j \<in> set (take i xs)"
    by (metis nth_mem)
  with assms(4) have "f (xs ! j) \<in> f ` set (filter P (take i xs))"
    by simp
  with out show ?thesis by auto
qed

text \<open>
  After the shift, the window of a position holds the values before it only: the rolling sum
  at position \<open>p\<close> of a group aggregates the \<open>w\<close> values that precede \<open>p\<close>.
\<close>

lemma rolling_window_shift:
  assumes "p < length s"
  shows "dropna (rolling_window w (shift s) p) = dropna (drop (p - w) (take p s))"
proof -
  from assms have ne: "s \<noteq> []" by auto
  have tk: "take (Suc p) (shift s) = None # take p s"
    using assms ne by (simp add: shift_def take_butlast)
  show ?thesis
  proof (cases "Suc p - w")
    case 0
    then have "p - w = 0" by simp
    with 0 tk show ?thesis by (simp add: rolling_window_def)
  next
    case (Suc k)
    then have "k = p - w" by simp
    with Suc tk show ?thesis by (simp add: rolling_window_def)
  qed
qed

lemma rolling_sum_shift_nth:
  assumes "p < length s"
  shows "rolling_sum w (shift s) ! p =
         (if dropna (drop (p - w) (take p s)) = [] then None
          else Some (sum_list (dropna (drop (p - w) (take p s)))))"
  using assms by (simp add: rolling_sum_def rolling_window_shift Let_def)

section \<open>The team-centric view: points, rows and match numbers\<close>

lemma add_view_columns_fields [simp]:
  "team_id (add_view_columns r n d) = team_id r"
  "t_datetime (add_view_columns r n d) = t_datetime r"
  "t_match_id (add_view_columns r n d) = t_match_id r"
  "points (add_view_columns r n d) = points r"
  "is_home (add_view_columns r n d) = is_home r"
  "match_number (add_view_columns r n d) = n"
  "team_row.truncate (add_view_columns r n d) = r"
  by (simp_all add: add_view_columns_def team_row.defs long_row.defs)

lemma length_concat_sorted [simp]: "length (concat_sorted ms) = 2 * length ms"
  by (simp add: concat_sorted_def)

lemma length_compute_team_view [simp]: "length (compute_team_view ms) = 2 * length ms"
  by (simp add: compute_team_view_def Let_def)

lemma compute_team_view_nth:
  "i < 2 * length ms \<Longrightarrow>
   compute_team_view ms ! i =
     add_view_columns (concat_sorted ms ! i)
       (cumcount (map team_id (concat_sorted ms)) ! i)
       (group_transform (map team_id (concat_sorted ms)) (map t_datetime (concat_sorted ms)) diff ! i)"
  by (simp add: compute_team_view_def Let_def)

lemma truncate_compute_team_view:
  "map team_row.truncate (compute_team_view ms) = concat_sorted ms"
  by (rule nth_equalityI) (simp_all add: compute_team_view_nth)

lemma team_id_compute_team_view:
  "map team_id (compute_team_view ms) = map team_id (concat_sorted ms)"
  by (rule nth_equalityI) (simp_all add: compute_team_view_nth)

lemma sorted_concat_sorted:
  "sorted (map (\<lambda>r. (team_id r, t_datetime r)) (concat_sorted ms))"
  by (simp add: concat_sorted_def)

lemma view_sorted:
  "sorted (map (\<lambda>r. (team_id r, t_datetime r)) (compute_team_view ms))"
proof -
  have "map (\<lambda>r. (team_id r, t_datetime r)) (compute_team_view ms) =
        map (\<lambda>r. (team_id r, t_datetime r)) (concat_sorted ms)"
    by (rule nth_equalityI) (simp_all add: compute_team_view_nth)
  then show ?thesis by (simp add: sorted_concat_sorted)
qed

lemma view_order:
  assumes "i < j" "j < length (compute_team_view ms)"
    and "team_id (compute_team_view ms ! i) = team_id (compute_team_view ms ! j)"
  shows "t_datetime (compute_team_view ms ! i) \<le> t_datetime (compute_team_view ms ! j)"
proof -
  let ?v = "compute_team_view ms"
  let ?k = "\<lambda>r::long_row. (team_id r, t_datetime r)"
  have "map ?k ?v ! i \<le> map ?k ?v ! j"
    using view_sorted [of ms] assms(1,2) by (simp add: sorted_iff_nth_mono del: length_compute_team_view)
  then have "?k (?v ! i) \<le> ?k (?v ! j)"
    using assms(1,2) by simp
  with assms(3) show ?thesis by (simp add: less_eq_prod_def)
qed

lemma match_number_view:
  assumes "i < length (compute_team_view ms)"
  shows "match_number (compute_team_view ms ! i) =
         length (filter (\<lambda>r. team_id r = team_id (compute_team_view ms ! i)) (take i (compute_team_view ms)))"
proof -
  let ?v = "compute_team_view ms"
  have "match_number (?v ! i) = cumcount (map team_id ?v) ! i"
    using assms by (simp add: compute_team_view_nth team_id_compute_team_view)
  also have "\<dots> = length (filter (\<lambda>k. k = team_id (?v ! i)) (take i (map team_id ?v)))"
    using assms by (simp add: cumcount_nth del: length_compute_team_view)
  also have "\<dots> = length (filter (\<lambda>r. team_id r = team_id (?v ! i)) (take i ?v))"
    by (simp add: take_map filter_map comp_def)
  finally show ?thesis .
qed

lemma view_prior_not_later:
  assumes "i < length (compute_team_view matches)"
    and "r \<in> set (filter (\<lambda>r. team_id r = team_id (compute_team_view matches ! i))
                        (take i (compute_team_view matches)))"
  shows "t_datetime r \<le> t_datetime (compute_team_view matches ! i)"
proof -
  let ?v = "compute_team_view matches"
  from assms(2) have "r \<in> set (take i ?v)" and team: "team_id r = team_id (?v ! i)" by auto
  then obtain j where j: "j < length (take i ?v)" "take i ?v ! j = r"
    by (auto simp: in_set_conv_nth)
  then have "j < i" "?v ! j = r" by simp_all
  with view_order [of j i matches] assms(1) team show ?thesis by simp
qed

lemma view_prior_earlier:
  assumes "i < length (compute_team_view matches)"
    and "distinct (map t_datetime
           (filter (\<lambda>r. team_id r = team_id (compute_team_view matches ! i))
                   (compute_team_view matches)))"
    and "r \<in> set (filter (\<lambda>r. team_id r = team_id (compute_team_view matches ! i))
                        (take i (compute_team_view matches)))"
  shows "t_datetime r < t_datetime (compute_team_view matches ! i)"
proof -
  let ?v = "compute_team_view matches"
  from assms(3) have "r \<in> set (take i ?v)" and team: "team_id r = team_id (?v ! i)" by auto
  then obtain j where j: "j < length (take i ?v)" "take i ?v ! j = r"
    by (auto simp: in_set_conv_nth)
  then have ji: "j < i" and r: "?v ! j = r" by simp_all
  have "t_datetime (?v ! j) \<noteq> t_datetime (?v ! i)"
    using assms(2) ji assms(1) by (rule distinct_keys_earlier) (simp_all add: r team)
  moreover have "t_datetime r \<le> t_datetime (?v ! i)"
    by (rule view_prior_not_later [OF assms(1,3)])
  ultimately show ?thesis using r by simp
qed

lemma view_earlier_count:
  assumes "i < length (compute_team_view matches)"
    and "distinct (map t_datetime
           (filter (\<lambda>r. team_id r = team_id (compute_team_view matches ! i))
                   (compute_team_view matches)))"
  shows "length (filter (\<lambda>r. team_id r = team_id (compute_team_view matches ! i)
                              \<and> t_datetime r < t_datetime (compute_team_view matches ! i))
                        (compute_team_view matches))
       = length (filter (\<lambda>r. team_id r = team_id (compute_team_view matches ! i))
                        (take i (compute_team_view matches)))"
proof -
  let ?v = "compute_team_view matches"
  let ?same = "\<lambda>r::long_row. team_id r = team_id (?v ! i)"
  let ?early = "\<lambda>r::long_row. ?same r \<and> t_datetime r < t_datetime (?v ! i)"
  have before: "filter ?early (take i ?v) = filter ?same (take i ?v)"
  proof (rule filter_cong [OF refl])
    fix r assume "r \<in> set (take i ?v)"
    then show "?early r = ?same r"
      using view_prior_earlier [OF assms, of r] by auto
  qed
  have after: "filter ?early (drop i ?v) = []"
  proof -
    have "\<not> ?early r" if "r \<in> set (drop i ?v)" for r
    proof
      assume e: "?early r"
      from that obtain k where k: "k < length (drop i ?v)" "drop i ?v ! k = r"
        by (auto simp: in_set_conv_nth)
      then have r: "r = ?v ! (i + k)" and bound: "i + k < length ?v" by auto
      have "t_datetime (?v ! i) \<le> t_datetime r"
      proof (cases "k = 0")
        case True
        with r show ?thesis by simp
      next
        case False
        then have "i < i + k" by simp
        from view_order [OF this bound] e r show ?thesis by simp
      qed
      with e show False by simp
    qed
    then show ?thesis by (auto simp: filter_empty_conv)
  qed
  have "filter ?early ?v = filter ?early (take i ?v) @ filter ?early (drop i ?v)"
    by (metis append_take_drop_id filter_append)
  then show ?thesis by (simp add: before after)
qed

text \<open>
  Claim C8. The view builder assigns the points of a match from its outcome code: a home win
  (code \<open>H\<close>) gives 3 points to the home side and 0 to the away side, an away win (code \<open>A\<close>)
  gives 0 and 3, a draw (code \<open>D\<close>) gives 1 and 1. Every match produces exactly two rows of
  the view: stripped of the columns the view adds, the rows of the view are the home row and the
  away row of every match, each once, so the view has twice as many rows as the table.
\<close>

theorem outcome_points_two_rows:
  "outcome_points ''H'' = (3, 0) \<and> outcome_points ''A'' = (0, 3) \<and> outcome_points ''D'' = (1, 1)
   \<and> points (home_row m) = fst (outcome_points (match_outcome_code m))
   \<and> points (away_row m) = snd (outcome_points (match_outcome_code m))
   \<and> length (compute_team_view matches) = 2 * length matches
   \<and> mset (map team_row.truncate (compute_team_view matches)) =
       mset (map home_row matches) + mset (map away_row matches)"
  by (simp add: truncate_compute_team_view concat_sorted_def home_row_def away_row_def)

text \<open>
  Claim C3. The match number of a row of the view is the number of earlier rows of the view
  for the same team, counted from zero; when the team has no two rows with the same kickoff,
  that is the number of the team's rows with an earlier kickoff. The rows of a team stand in
  the order of their kickoff timestamps, and along them the match number is strictly
  increasing: a later row of the team has a kickoff that is not earlier and a greater match
  number, and of two appearances of a team the one with the later kickoff has the greater
  match number.
\<close>

theorem match_number_sequence:
  assumes "i < length (compute_team_view matches)"
  shows "match_number (compute_team_view matches ! i) =
           length (filter (\<lambda>r. team_id r = team_id (compute_team_view matches ! i))
                          (take i (compute_team_view matches)))
       \<and> (distinct (map t_datetime
              (filter (\<lambda>r. team_id r = team_id (compute_team_view matches ! i))
                      (compute_team_view matches))) \<longrightarrow>
            match_number (compute_team_view matches ! i) =
              length (filter (\<lambda>r. team_id r = team_id (compute_team_view matches ! i)
                                   \<and> t_datetime r < t_datetime (compute_team_view matches ! i))
                             (compute_team_view matches)))
       \<and> (\<forall>j < length (compute_team_view matches).
             team_id (compute_team_view matches ! j) = team_id (compute_team_view matches ! i) \<longrightarrow>
             (i < j \<longrightarrow> t_datetime (compute_team_view matches ! i) \<le> t_datetime (compute_team_view matches ! j)
                       \<and> match_number (compute_team_view matches ! i) < match_number (compute_team_view matches ! j))
           \<and> (t_datetime (compute_team_view matches ! i) < t_datetime (compute_team_view matches ! j) \<longrightarrow>
                  match_number (compute_team_view matches ! i) < match_number (compute_team_view matches ! j)))"
proof -
  let ?v = "compute_team_view matches"
  have mono: "match_number (?v ! a) < match_number (?v ! b)"
    if "a < b" "b < length ?v" "team_id (?v ! a) = team_id (?v ! b)" for a b
  proof -
    have "length (filter (\<lambda>r. team_id r = team_id (?v ! b)) (take a ?v))
        < length (filter (\<lambda>r. team_id r = team_id (?v ! b)) (take b ?v))"
      using that by (intro count_prefix_mono) simp_all
    then show ?thesis
      using that match_number_view [of a matches] match_number_view [of b matches] by simp
  qed
  have strict: "match_number (?v ! i) < match_number (?v ! j)"
    if "j < length ?v" "team_id (?v ! j) = team_id (?v ! i)" "t_datetime (?v ! i) < t_datetime (?v ! j)" for j
  proof -
    have "\<not> j < i"
      using view_order [of j i matches] that assms by auto
    moreover have "j \<noteq> i" using that(3) by auto
    ultimately have "i < j" by simp
    with mono that show ?thesis by simp
  qed
  have later: "t_datetime (?v ! i) \<le> t_datetime (?v ! j) \<and> match_number (?v ! i) < match_number (?v ! j)"
    if "j < length ?v" "team_id (?v ! j) = team_id (?v ! i)" "i < j" for j
    using that mono [of i j] view_order [of i j matches] by simp
  have count: "match_number (?v ! i) =
      length (filter (\<lambda>r. team_id r = team_id (?v ! i) \<and> t_datetime r < t_datetime (?v ! i)) ?v)"
    if "distinct (map t_datetime (filter (\<lambda>r. team_id r = team_id (?v ! i)) ?v))"
    using view_earlier_count [OF assms that] match_number_view [OF assms] by simp
  from match_number_view [OF assms] later strict count show ?thesis
    by blast
qed

theorem match_number_sequence_witness:
  "(1::nat) < length (compute_team_view demo_matches)
   \<and> match_number (compute_team_view demo_matches ! 1) =
       length (filter (\<lambda>r. team_id r = team_id (compute_team_view demo_matches ! 1))
                      (take 1 (compute_team_view demo_matches)))
   \<and> match_number (compute_team_view demo_matches ! 1) =
       length (filter (\<lambda>r. team_id r = team_id (compute_team_view demo_matches ! 1)
                            \<and> t_datetime r < t_datetime (compute_team_view demo_matches ! 1))
                      (compute_team_view demo_matches))
   \<and> match_number (compute_team_view demo_matches ! 1) = 1
   \<and> match_number (compute_team_view demo_matches ! 1) < match_number (compute_team_view demo_matches ! 2)"
proof -
  let ?v = "compute_team_view demo_matches"
  have len: "(1::nat) < length ?v"
    by (simp add: demo_matches_def)
  have two: "(2::nat) < length ?v"
    by (simp add: demo_matches_def)
  have team: "team_id (?v ! 2) = team_id (?v ! 1)"
    by code_simp
  have apart: "distinct (map t_datetime (filter (\<lambda>r. team_id r = team_id (?v ! 1)) ?v))"
    by code_simp
  have val: "match_number (?v ! 1) = 1"
    by code_simp
  have ord: "(1::nat) < 2" by simp
  note t = match_number_sequence [OF len]
  from t two team ord have a: "match_number (?v ! 1) < match_number (?v ! 2)"
    by blast
  from t apart have b: "match_number (?v ! 1) =
      length (filter (\<lambda>r. team_id r = team_id (?v ! 1) \<and> t_datetime r < t_datetime (?v ! 1)) ?v)"
    by blast
  from t have c: "match_number (?v ! 1) =
      length (filter (\<lambda>r. team_id r = team_id (?v ! 1)) (take 1 ?v))"
    by blast
  from a b c val len show ?thesis
    by blast
qed

section \<open>Rolling aggregates never look at the current match\<close>

lemma add_rolling_features_nth:
  assumes "i < length long_df"
  shows "add_rolling_features long_df col w ! i =
         sum_list (dropna (map (metric_col col)
           (lastn w (filter (\<lambda>r. team_id r = team_id (long_df ! i)) (take i long_df)))))"
proof -
  let ?ks = "map team_id long_df"
  let ?vs = "map (metric_col col) long_df"
  let ?g = "group_vals ?ks ?vs (?ks ! i)"
  let ?p = "cumcount ?ks ! i"
  let ?prior = "filter (\<lambda>r. team_id r = team_id (long_df ! i)) (take i long_df)"
  have len: "length ?ks = length ?vs" "i < length ?ks" using assms by simp_all
  have p: "?p < length ?g" by (rule cumcount_less_group [OF len])
  have "take ?p ?g = group_vals (take i ?ks) (take i ?vs) (?ks ! i)"
    by (rule group_vals_take [OF len])
  also have "\<dots> = map (metric_col col) ?prior"
    using assms by (simp add: take_map group_vals_map)
  finally have tk: "take ?p ?g = map (metric_col col) ?prior" .
  have "drop (?p - w) (take ?p ?g) = lastn w (take ?p ?g)"
    using p by (intro lastn_take) simp
  also have "\<dots> = map (metric_col col) (lastn w ?prior)"
    by (simp only: tk) (simp add: lastn_def drop_map)
  finally have win: "drop (?p - w) (take ?p ?g) = map (metric_col col) (lastn w ?prior)" .
  have "rolling_col long_df col w ! i = rolling_sum w (shift ?g) ! ?p"
    using assms by (simp add: rolling_col_def group_transform_nth)
  also have "\<dots> = (if dropna (map (metric_col col) (lastn w ?prior)) = [] then None
                    else Some (sum_list (dropna (map (metric_col col) (lastn w ?prior)))))"
    using rolling_sum_shift_nth [OF p, of w] by (simp only: win)
  finally have "rolling_col long_df col w ! i =
      (if dropna (map (metric_col col) (lastn w ?prior)) = [] then None
       else Some (sum_list (dropna (map (metric_col col) (lastn w ?prior)))))" .
  moreover have "i < length (rolling_col long_df col w)"
    using assms by (simp add: rolling_col_def)
  ultimately show ?thesis
    by (simp add: add_rolling_features_def fillna0_nth)
qed

text \<open>
  Claim C1. For every base metric and every window \<open>w\<close> of 3, 5 and 10, the rolling feature of
  a row of the view is the sum of the metric over the most recent \<open>w\<close> of the rows of the same
  team that stand before it (a missing value adds nothing). Those rows all have a kickoff that
  is not later than the row's own, and a strictly earlier one when the team has no two rows
  with the same kickoff, so neither the current match nor a later one enters the sum; a row
  with no earlier row of its team gets the value 0.
\<close>

theorem rolling_feature_prior_sum:
  assumes "w \<in> set windows" and "i < length (compute_team_view matches)"
  shows "add_rolling_features (compute_team_view matches) col w ! i =
           sum_list (dropna (map (metric_col col)
             (lastn w (filter (\<lambda>r. team_id r = team_id (compute_team_view matches ! i))
                              (take i (compute_team_view matches))))))
       \<and> (\<forall>r \<in> set (filter (\<lambda>r. team_id r = team_id (compute_team_view matches ! i))
                            (take i (compute_team_view matches))).
             t_datetime r \<le> t_datetime (compute_team_view matches ! i))
       \<and> (distinct (map t_datetime
              (filter (\<lambda>r. team_id r = team_id (compute_team_view matches ! i))
                      (compute_team_view matches))) \<longrightarrow>
            (\<forall>r \<in> set (filter (\<lambda>r. team_id r = team_id (compute_team_view matches ! i))
                              (take i (compute_team_view matches))).
               t_datetime r < t_datetime (compute_team_view matches ! i)))
       \<and> (filter (\<lambda>r. team_id r = team_id (compute_team_view matches ! i))
                  (take i (compute_team_view matches)) = [] \<longrightarrow>
             add_rolling_features (compute_team_view matches) col w ! i = 0)"
proof (intro conjI ballI impI)
  show eq: "add_rolling_features (compute_team_view matches) col w ! i =
           sum_list (dropna (map (metric_col col)
             (lastn w (filter (\<lambda>r. team_id r = team_id (compute_team_view matches ! i))
                              (take i (compute_team_view matches))))))"
    by (rule add_rolling_features_nth [OF assms(2)])
  show "t_datetime r \<le> t_datetime (compute_team_view matches ! i)"
    if "r \<in> set (filter (\<lambda>r. team_id r = team_id (compute_team_view matches ! i))
                        (take i (compute_team_view matches)))" for r
    using view_prior_not_later [OF assms(2) that] .
  show "t_datetime r < t_datetime (compute_team_view matches ! i)"
    if "distinct (map t_datetime
          (filter (\<lambda>r. team_id r = team_id (compute_team_view matches ! i))
                  (compute_team_view matches)))"
      and "r \<in> set (filter (\<lambda>r. team_id r = team_id (compute_team_view matches ! i))
                        (take i (compute_team_view matches)))" for r
    using view_prior_earlier [OF assms(2) that] .
  show "add_rolling_features (compute_team_view matches) col w ! i = 0"
    if "filter (\<lambda>r. team_id r = team_id (compute_team_view matches ! i))
               (take i (compute_team_view matches)) = []"
    using that by (simp only: eq) (simp add: lastn_def)
qed

theorem rolling_feature_prior_sum_witness:
  "(3::nat) \<in> set windows \<and> (2::nat) < length (compute_team_view demo_matches)
   \<and> add_rolling_features (compute_team_view demo_matches) Points 3 ! 2 = 4
   \<and> t_datetime (compute_team_view demo_matches ! 1) < t_datetime (compute_team_view demo_matches ! 2)
   \<and> add_rolling_features (compute_team_view demo_matches) Points 3 ! 0 = 0"
proof -
  let ?v = "compute_team_view demo_matches"
  have w: "(3::nat) \<in> set windows" by (simp add: windows_def)
  have len: "(2::nat) < length ?v" and len0: "(0::nat) < length ?v"
    by (simp_all add: demo_matches_def)
  have prior: "sum_list (dropna (map (metric_col Points)
        (lastn 3 (filter (\<lambda>r. team_id r = team_id (?v ! 2)) (take 2 ?v))))) = 4"
    by code_simp
  have apart: "distinct (map t_datetime (filter (\<lambda>r. team_id r = team_id (?v ! 2)) ?v))"
    by code_simp
  have "?v ! 1 = take 2 ?v ! 1" by simp
  moreover have "(1::nat) < length (take 2 ?v)" using len by simp
  ultimately have "?v ! 1 \<in> set (take 2 ?v)" by (metis nth_mem)
  moreover have "team_id (?v ! 1) = team_id (?v ! 2)" by code_simp
  ultimately have before: "?v ! 1 \<in> set (filter (\<lambda>r. team_id r = team_id (?v ! 2)) (take 2 ?v))"
    by simp
  have none: "filter (\<lambda>r. team_id r = team_id (?v ! 0)) (take 0 ?v) = []" by simp
  note t2 = rolling_feature_prior_sum [OF w len, of Points]
  note t0 = rolling_feature_prior_sum [OF w len0, of Points]
  from t2 prior have a: "add_rolling_features ?v Points 3 ! 2 = 4" by simp
  from t2 apart before have b: "t_datetime (?v ! 1) < t_datetime (?v ! 2)" by blast
  from t0 none have c: "add_rolling_features ?v Points 3 ! 0 = 0" by blast
  from a b c w len show ?thesis by blast
qed

section \<open>Market probabilities\<close>

lemma clip_value_bounds:
  "lo \<le> hi \<Longrightarrow> lo \<le> clip_value lo hi x \<and> clip_value lo hi x \<le> hi"
  by (simp add: clip_value_def)

lemma renormalized_sum:
  fixes x y z :: real
  assumes "0 < x" "0 < y" "0 < z"
  shows "x / (x + y + z) + y / (x + y + z) + z / (x + y + z) = 1"
    and "0 < x / (x + y + z)" and "x / (x + y + z) < 1"
proof -
  have pos: "0 < x + y + z" using assms by simp
  show "x / (x + y + z) + y / (x + y + z) + z / (x + y + z) = 1"
    using pos by (simp add: add_divide_distrib [symmetric])
  show "0 < x / (x + y + z)" using assms pos by simp
  show "x / (x + y + z) < 1" using assms pos by simp
qed

text \<open>
  Claim C4, as the code has it. On a fixture row whose three forecast probabilities are all
  present, each is clamped to the range from \<open>1e-6\<close> to \<open>1 - 1e-6\<close> and then divided by the sum
  of the three clamped values; the three results sum to 1 and each lies strictly between 0 and
  1. On a row where one of the three is missing, all three come out missing.
\<close>

theorem forecast_renormalized:
  "(forecast_home_win fr = Some h \<and> forecast_draw fr = Some d \<and> forecast_away_win fr = Some a \<longrightarrow>
      (let ch = clip_value epsilon (1 - epsilon) h;
           cd = clip_value epsilon (1 - epsilon) d;
           ca = clip_value epsilon (1 - epsilon) a;
           total = ch + cd + ca
       in add_market_features fr =
            \<lparr> forecast_home_win = Some (ch / total), forecast_draw = Some (cd / total),
              forecast_away_win = Some (ca / total) \<rparr>
          \<and> ch / total + cd / total + ca / total = 1
          \<and> 0 < ch / total \<and> ch / total < 1
          \<and> 0 < cd / total \<and> cd / total < 1
          \<and> 0 < ca / total \<and> ca / total < 1))
   \<and> (forecast_home_win fr = None \<or> forecast_draw fr = None \<or> forecast_away_win fr = None \<longrightarrow>
        add_market_features fr =
          \<lparr> forecast_home_win = None, forecast_draw = None, forecast_away_win = None \<rparr>)"
proof (intro conjI impI)
  assume present: "forecast_home_win fr = Some h \<and> forecast_draw fr = Some d \<and> forecast_away_win fr = Some a"
  define ch where "ch = clip_value epsilon (1 - epsilon) h"
  define cd where "cd = clip_value epsilon (1 - epsilon) d"
  define ca where "ca = clip_value epsilon (1 - epsilon) a"
  have eps: "0 < epsilon" "epsilon \<le> 1 - epsilon" by (simp_all add: epsilon_def)
  have pos: "0 < ch" "0 < cd" "0 < ca"
    using clip_value_bounds [OF eps(2)] eps(1) unfolding ch_def cd_def ca_def
    by (metis less_le_trans)+
  have tot: "ch + cd + ca \<noteq> 0" using pos by simp
  have out: "add_market_features fr =
      \<lparr> forecast_home_win = Some (ch / (ch + cd + ca)), forecast_draw = Some (cd / (ch + cd + ca)),
        forecast_away_win = Some (ca / (ch + cd + ca)) \<rparr>"
    using present tot
    by (simp add: add_market_features_def clip_def add_cell_def div_cell_def Let_def ch_def cd_def ca_def)
  have s: "ch / (ch + cd + ca) + cd / (ch + cd + ca) + ca / (ch + cd + ca) = 1"
    by (rule renormalized_sum(1) [OF pos])
  have b1: "0 < ch / (ch + cd + ca)" "ch / (ch + cd + ca) < 1"
    by (rule renormalized_sum(2,3) [OF pos])+
  have b2: "0 < cd / (ch + cd + ca)" "cd / (ch + cd + ca) < 1"
    using renormalized_sum(2,3) [OF pos(2) pos(1) pos(3)] by (simp_all add: add.commute)
  have b3: "0 < ca / (ch + cd + ca)" "ca / (ch + cd + ca) < 1"
    using renormalized_sum(2,3) [OF pos(3) pos(1) pos(2)] by (simp_all add: add.commute add.left_commute)
  show "let ch = clip_value epsilon (1 - epsilon) h;
           cd = clip_value epsilon (1 - epsilon) d;
           ca = clip_value epsilon (1 - epsilon) a;
           total = ch + cd + ca
       in add_market_features fr =
            \<lparr> forecast_home_win = Some (ch / total), forecast_draw = Some (cd / total),
              forecast_away_win = Some (ca / total) \<rparr>
          \<and> ch / total + cd / total + ca / total = 1
          \<and> 0 < ch / total \<and> ch / total < 1
          \<and> 0 < cd / total \<and> cd / total < 1
          \<and> 0 < ca / total \<and> ca / total < 1"
    unfolding Let_def ch_def [symmetric] cd_def [symmetric] ca_def [symmetric]
    using out s b1 b2 b3 by simp
next
  assume "forecast_home_win fr = None \<or> forecast_draw fr = None \<or> forecast_away_win fr = None"
  then show "add_market_features fr =
          \<lparr> forecast_home_win = None, forecast_draw = None, forecast_away_win = None \<rparr>"
    by (auto simp: add_market_features_def clip_def add_cell_def div_cell_def Let_def split: option.splits)
qed

theorem forecast_renormalized_witness:
  "add_market_features demo_forecast = demo_forecast
   \<and> add_market_features missing_forecast =
       \<lparr> forecast_home_win = None, forecast_draw = None, forecast_away_win = None \<rparr>"
  using forecast_renormalized [of demo_forecast "11 / 20" "1 / 4" "1 / 5"]
    forecast_renormalized [of missing_forecast]
  by (simp add: demo_forecast_def missing_forecast_def clip_value_def epsilon_def Let_def)

text \<open>
  The claim does not hold of every fixture row: with the home probability missing, the draw
  probability comes out missing, not a number inside \<open>(0,1)\<close>.
\<close>

theorem forecast_missing_counterexample:
  "forecast_draw (add_market_features missing_forecast) = None"
  by (simp add: missing_forecast_def add_market_features_def clip_def add_cell_def div_cell_def Let_def)

section \<open>The cache round trip\<close>

text \<open>
  Claim C2. After \<open>set\<close> has stored a payload under a key with dataset modification time \<open>t\<close>,
  \<open>get\<close> on the key with the same \<open>t\<close> returns the payload, entry for entry, and \<open>get\<close> with a
  time \<open>t'\<close> further than \<open>1e-6\<close> from \<open>t\<close> returns a miss.
\<close>

theorem cache_round_trip:
  "FeatureCache_get (FeatureCache_set db version season_key home away t mid feats)
      version season_key home away t = Some feats
   \<and> (\<bar>t' - t\<bar> > 1 / 1000000 \<longrightarrow>
        FeatureCache_get (FeatureCache_set db version season_key home away t mid feats)
          version season_key home away t' = None)"
  by (simp add: FeatureCache_get_def FeatureCache_set_def json_dumps_def abs_minus_commute)

theorem cache_round_trip_witness:
  "FeatureCache_get (FeatureCache_set Map.empty ''7'' ''2025'' ''arsenal'' ''leeds'' 1000 28793
        [(''prob_edge'', 7 / 20)]) ''7'' ''2025'' ''arsenal'' ''leeds'' 1000
     = Some [(''prob_edge'', 7 / 20)]
   \<and> \<bar>1001 - 1000 :: real\<bar> > 1 / 1000000
   \<and> FeatureCache_get (FeatureCache_set Map.empty ''7'' ''2025'' ''arsenal'' ''leeds'' 1000 28793
        [(''prob_edge'', 7 / 20)]) ''7'' ''2025'' ''arsenal'' ''leeds'' 1001 = None"
  using cache_round_trip [of Map.empty "''7''" "''2025''" "''arsenal''" "''leeds''" 1000 28793
      "[(''prob_edge'', 7 / 20)]" 1001]
  by simp

section \<open>Resolving the required features of a fixture\<close>

lemma resolve_feature_frame:
  "required_features (snd (resolve_feature row f acc)) = required_features (snd acc)"
  "cache (snd (resolve_feature row f acc)) = cache (snd acc)"
  "dataset_version (snd (resolve_feature row f acc)) = dataset_version (snd acc)"
  "dataset_mtime (snd (resolve_feature row f acc)) = dataset_mtime (snd acc)"
  "df (snd (resolve_feature row f acc)) = df (snd acc)"
  by (simp_all add: resolve_feature_def split: prod.splits option.splits)

lemma resolve_feature_value:
  "map_of (fst (resolve_feature row f acc)) =
     (map_of (fst acc))(f \<mapsto> (case row_get row f of None \<Rightarrow> 0 | Some x \<Rightarrow> x))"
  by (simp add: resolve_feature_def update_conv' split: prod.splits option.splits)

lemma resolve_feature_warned_once:
  "warned_once (snd acc) \<Longrightarrow> warned_once (snd (resolve_feature row f acc))"
  by (auto simp: resolve_feature_def warned_once_def split: prod.splits option.splits)

lemma fold_resolve_frame:
  "required_features (snd (fold (resolve_feature row) fs acc)) = required_features (snd acc)"
  "cache (snd (fold (resolve_feature row) fs acc)) = cache (snd acc)"
  "dataset_version (snd (fold (resolve_feature row) fs acc)) = dataset_version (snd acc)"
  "dataset_mtime (snd (fold (resolve_feature row) fs acc)) = dataset_mtime (snd acc)"
  "df (snd (fold (resolve_feature row) fs acc)) = df (snd acc)"
  by (induction fs arbitrary: acc; simp add: resolve_feature_frame)+

lemma fold_resolve_value:
  "map_of (fst (fold (resolve_feature row) fs acc)) f =
     (if f \<in> set fs then Some (case row_get row f of None \<Rightarrow> 0 | Some x \<Rightarrow> x)
      else map_of (fst acc) f)"
proof (induction fs arbitrary: acc)
  case Nil
  show ?case by simp
next
  case (Cons g fs)
  show ?case
    by (simp add: Cons.IH resolve_feature_value)
qed

lemma fold_resolve_warned_once:
  "warned_once (snd acc) \<Longrightarrow> warned_once (snd (fold (resolve_feature row) fs acc))"
  by (induction fs arbitrary: acc) (simp_all add: resolve_feature_warned_once)

lemma build_cache_hit:
  assumes "cache_lookup st row = Some p" "p \<noteq> []"
  shows "build_features_from_row st row = (fixture_of row p, st)"
  using assms by (simp add: build_features_from_row_def Let_def)

lemma build_cache_miss:
  assumes "cache_lookup st row = None \<or> cache_lookup st row = Some []"
  shows "features (fst (build_features_from_row st row)) =
           fst (fold (resolve_feature row) (required_features st) ([], st))"
  using assms
  by (auto simp: build_features_from_row_def Let_def fixture_of_def split: prod.splits option.splits)

lemma build_warned_once:
  assumes "warned_once st"
  shows "warned_once (snd (build_features_from_row st row))"
proof -
  let ?r = "fold (resolve_feature row) (required_features st) ([], st)"
  have w: "warned_once (snd ?r)"
    using assms by (intro fold_resolve_warned_once) simp
  show ?thesis
    using assms w
    by (auto simp: build_features_from_row_def Let_def warned_once_def split: prod.splits option.splits)
qed

lemma build_required:
  "required_features (snd (build_features_from_row st row)) = required_features st"
proof -
  let ?r = "fold (resolve_feature row) (required_features st) ([], st)"
  have "required_features (snd ?r) = required_features st"
    by (simp add: fold_resolve_frame)
  then show ?thesis
    by (auto simp: build_features_from_row_def Let_def split: prod.splits option.splits)
qed

lemma build_cache_none:
  assumes "cache st = None"
  shows "cache (snd (build_features_from_row st row)) = None"
proof -
  let ?r = "fold (resolve_feature row) (required_features st) ([], st)"
  have "cache (snd ?r) = None"
    using assms by (simp add: fold_resolve_frame)
  then show ?thesis
    using assms
    by (auto simp: build_features_from_row_def cache_lookup_def Let_def split: prod.splits)
qed

lemma build_warned_once_pair:
  assumes "warned_once st" "build_features_from_row st row = (fx, st')"
  shows "warned_once st'"
  using build_warned_once [OF assms(1), of row] assms(2) by simp

lemma lookup_warned_once:
  assumes "warned_once st" "lookup st q = Inr (fx, st')"
  shows "warned_once st'"
proof (cases q)
  case (ByTeams s h a)
  with assms(2) obtain row where "build_features_from_row st row = (fx, st')"
    by (auto simp: get_fixture_def split: list.splits)
  with assms(1) show ?thesis by (rule build_warned_once_pair)
next
  case (ById mid)
  with assms(2) obtain row where "build_features_from_row st row = (fx, st')"
    by (auto simp: get_fixture_by_id_def split: list.splits)
  with assms(1) show ?thesis by (rule build_warned_once_pair)
qed

lemma lookup_required:
  assumes "lookup st q = Inr (fx, st')"
  shows "required_features st' = required_features st"
proof -
  from assms obtain row where "build_features_from_row st row = (fx, st')"
    by (cases q) (auto simp: get_fixture_def get_fixture_by_id_def split: list.splits)
  with build_required [of st row] show ?thesis by simp
qed

lemma lookup_cache_none:
  assumes "cache st = None" "lookup st q = Inr (fx, st')"
  shows "cache st' = None"
proof -
  from assms(2) obtain row where "build_features_from_row st row = (fx, st')"
    by (cases q) (auto simp: get_fixture_def get_fixture_by_id_def split: list.splits)
  with build_cache_none [OF assms(1), of row] show ?thesis by simp
qed

lemma lookups_warned_once:
  "warned_once st \<Longrightarrow> warned_once (lookups st qs)"
proof (induction qs arbitrary: st)
  case Nil
  then show ?case by simp
next
  case (Cons q qs)
  show ?case
  proof (cases "lookup st q")
    case (Inl e)
    with Cons show ?thesis by simp
  next
    case (Inr res)
    obtain fx st' where res: "res = (fx, st')" by (cases res)
    with Inr Cons.prems have "warned_once st'" by (auto intro: lookup_warned_once)
    with Cons.IH Inr res show ?thesis by simp
  qed
qed

lemma lookups_required:
  "required_features (lookups st qs) = required_features st"
proof (induction qs arbitrary: st)
  case Nil
  show ?case by simp
next
  case (Cons q qs)
  show ?case
  proof (cases "lookup st q")
    case (Inl e)
    with Cons show ?thesis by simp
  next
    case (Inr res)
    obtain fx st' where res: "res = (fx, st')" by (cases res)
    with Inr have "required_features st' = required_features st" by (auto intro: lookup_required)
    with Cons.IH [of st'] Inr res show ?thesis by simp
  qed
qed

lemma lookups_cache_none:
  "cache st = None \<Longrightarrow> cache (lookups st qs) = None"
proof (induction qs arbitrary: st)
  case Nil
  then show ?case by simp
next
  case (Cons q qs)
  show ?case
  proof (cases "lookup st q")
    case (Inl e)
    with Cons show ?thesis by simp
  next
    case (Inr res)
    obtain fx st' where res: "res = (fx, st')" by (cases res)
    with Inr Cons.prems have "cache st' = None" by (auto intro: lookup_cache_none)
    with Cons.IH Inr res show ?thesis by simp
  qed
qed

text \<open>
  Claim C6, as the code has it. Take a store at any moment of its lifetime, that is after any
  sequence of lookups since it was built. When the lookup of a row is not answered from the
  cache (no cache, no entry for the key, an entry of another modification time, or an empty
  payload), every required feature is in the returned map, with the value 0 where the row has
  no value for it and with the row's value as a float where it has one. When the lookup is
  answered from the cache, the cached payload is returned as it is and nothing is logged. In
  both cases the warnings logged since the store was built name no feature twice.
\<close>

theorem resolver_defaults_and_warns_once:
  assumes "unknown_features_logged st0 = {}" and "warnings st0 = []"
    and "st = lookups st0 qs"
  shows "(cache_lookup st row = None \<or> cache_lookup st row = Some [] \<longrightarrow>
            (\<forall>f \<in> set (required_features st).
               map_of (features (fst (build_features_from_row st row))) f =
                 Some (case row_get row f of None \<Rightarrow> 0 | Some x \<Rightarrow> x)))
       \<and> (\<forall>p. cache_lookup st row = Some p \<and> p \<noteq> [] \<longrightarrow>
             features (fst (build_features_from_row st row)) = p
             \<and> warnings (snd (build_features_from_row st row)) = warnings st)
       \<and> distinct (warnings (snd (build_features_from_row st row)))"
proof (intro conjI impI allI ballI)
  have "warned_once st0" using assms(1,2) by (simp add: warned_once_def)
  then have "warned_once st" unfolding assms(3) by (rule lookups_warned_once)
  then have "warned_once (snd (build_features_from_row st row))" by (rule build_warned_once)
  then show "distinct (warnings (snd (build_features_from_row st row)))"
    by (simp add: warned_once_def)
next
  fix f
  assume miss: "cache_lookup st row = None \<or> cache_lookup st row = Some []"
    and f: "f \<in> set (required_features st)"
  show "map_of (features (fst (build_features_from_row st row))) f =
          Some (case row_get row f of None \<Rightarrow> 0 | Some x \<Rightarrow> x)"
    using f by (simp add: build_cache_miss [OF miss] fold_resolve_value)
next
  fix p
  assume hit: "cache_lookup st row = Some p \<and> p \<noteq> []"
  then have b: "build_features_from_row st row = (fixture_of row p, st)"
    by (simp add: build_cache_hit)
  show "features (fst (build_features_from_row st row)) = p"
    by (simp add: b fixture_of_def)
  show "warnings (snd (build_features_from_row st row)) = warnings st"
    by (simp add: b)
qed

theorem resolver_defaults_and_warns_once_witness:
  "map_of (features (fst (build_features_from_row
       (lookups (demo_store None) [ById 1]) (demo_row 2 ''2025'' ''Arsenal'' ''Leeds'')))) ''elo_gap_pre'' = Some 0
   \<and> map_of (features (fst (build_features_from_row
       (lookups (demo_store None) [ById 1]) (demo_row 2 ''2025'' ''Arsenal'' ''Leeds'')))) ''match_day_index'' = Some 3
   \<and> features (fst (build_features_from_row (lookups (demo_store (Some stale_cache)) [])
         (demo_row 2 ''2025'' ''Arsenal'' ''Leeds''))) = [(''prob_edge'', 7 / 20)]
   \<and> distinct (warnings (snd (build_features_from_row
       (lookups (demo_store None) [ById 1]) (demo_row 2 ''2025'' ''Arsenal'' ''Leeds''))))"
proof -
  let ?row = "demo_row 2 ''2025'' ''Arsenal'' ''Leeds''"
  let ?st = "lookups (demo_store None) [ById 1]"
  have fresh: "unknown_features_logged (demo_store c) = {}" "warnings (demo_store c) = []" for c
    by (simp_all add: demo_store_def)
  have req: "required_features ?st =
      [''prob_edge'', ''match_day_index'', ''elo_gap_pre'', ''market_vs_elo_edge'']"
    by (simp only: lookups_required) (simp add: demo_store_def)
  have "cache (demo_store None) = None"
    by (simp add: demo_store_def)
  then have "cache ?st = None"
    by (rule lookups_cache_none)
  then have miss: "cache_lookup ?st ?row = None"
    by (simp add: cache_lookup_def)
  have hit: "cache_lookup (lookups (demo_store (Some stale_cache)) []) ?row = Some [(''prob_edge'', 7 / 20)]"
    by (simp add: cache_lookup_def demo_store_def stale_cache_def FeatureCache_get_def
        FeatureCache_set_def json_dumps_def demo_row_def normalize_name_def strip_def lower_def
        lower_char_def is_space_def)
  have vals: "row_get ?row ''elo_gap_pre'' = None" "row_get ?row ''match_day_index'' = Some 3"
    by (simp_all add: row_get_def demo_row_def)
  from resolver_defaults_and_warns_once [OF fresh refl, of None "[ById 1]" ?row]
    resolver_defaults_and_warns_once [OF fresh refl, of "Some stale_cache" "[]" ?row]
    miss hit req vals
  show ?thesis by simp
qed

text \<open>
  The claim does not hold of every lookup: a lookup answered from a cache entry that an earlier
  store wrote for a shorter feature list returns that entry, and a required feature that is
  missing in the row is then absent from the returned map instead of 0.
\<close>

theorem cached_payload_counterexample:
  "map_of (features (fst (build_features_from_row (demo_store (Some stale_cache))
       (demo_row 2 ''2025'' ''Arsenal'' ''Leeds'')))) ''elo_gap_pre'' = None
   \<and> ''elo_gap_pre'' \<in> set (required_features (demo_store (Some stale_cache)))
   \<and> row_get (demo_row 2 ''2025'' ''Arsenal'' ''Leeds'') ''elo_gap_pre'' = None"
proof -
  have hit: "cache_lookup (demo_store (Some stale_cache)) (demo_row 2 ''2025'' ''Arsenal'' ''Leeds'')
      = Some [(''prob_edge'', 7 / 20)]"
    by (simp add: cache_lookup_def demo_store_def stale_cache_def FeatureCache_get_def
        FeatureCache_set_def json_dumps_def demo_row_def normalize_name_def strip_def lower_def
        lower_char_def is_space_def)
  then show ?thesis
    by (simp add: build_features_from_row_def Let_def fixture_of_def)
       (simp add: demo_store_def demo_row_def row_get_def)
qed

text \<open>
  Claim C7. When no row of the table has the season asked for and, letter case aside, the two
  team names asked for, \<open>get_fixture\<close> raises the not-found error and returns nothing; so does
  \<open>get_fixture_by_id\<close> when no row has the match id. When a row matches, the result is built
  from a matching row, and the answer does not depend on the letter case of the names given.
\<close>

theorem fixture_not_found:
  "((\<forall>r \<in> set (df st). \<not> (row_season r = season_or_latest st season_arg
                            \<and> lower (row_home_team_name r) = lower home
                            \<and> lower (row_away_team_name r) = lower away)) \<longrightarrow>
       get_fixture st season_arg home away = Inl NotFound)
   \<and> ((\<forall>r \<in> set (df st). row_match_id r \<noteq> mid) \<longrightarrow> get_fixture_by_id st mid = Inl NotFound)
   \<and> ((\<exists>r \<in> set (df st). row_season r = season_or_latest st season_arg
                            \<and> lower (row_home_team_name r) = lower home
                            \<and> lower (row_away_team_name r) = lower away) \<longrightarrow>
       (\<exists>row \<in> set (df st). row_season row = season_or_latest st season_arg
            \<and> lower (row_home_team_name row) = lower home
            \<and> lower (row_away_team_name row) = lower away
            \<and> get_fixture st season_arg home away = Inr (build_features_from_row st row)))
   \<and> ((\<exists>r \<in> set (df st). row_match_id r = mid) \<longrightarrow>
       (\<exists>row \<in> set (df st). row_match_id row = mid
            \<and> get_fixture_by_id st mid = Inr (build_features_from_row st row)))
   \<and> (lower home' = lower home \<and> lower away' = lower away \<longrightarrow>
        get_fixture st season_arg home' away' = get_fixture st season_arg home away)"
proof (intro conjI impI)
  let ?P = "fixture_mask (season_or_latest st season_arg) home away"
  assume "\<forall>r \<in> set (df st). \<not> (row_season r = season_or_latest st season_arg
                            \<and> lower (row_home_team_name r) = lower home
                            \<and> lower (row_away_team_name r) = lower away)"
  then have "filter ?P (df st) = []"
    by (auto simp: filter_empty_conv fixture_mask_def)
  then show "get_fixture st season_arg home away = Inl NotFound"
    by (simp add: get_fixture_def)
next
  assume "\<forall>r \<in> set (df st). row_match_id r \<noteq> mid"
  then have "filter (\<lambda>r. row_match_id r = mid) (df st) = []"
    by (auto simp: filter_empty_conv)
  then show "get_fixture_by_id st mid = Inl NotFound"
    by (simp add: get_fixture_by_id_def)
next
  let ?P = "fixture_mask (season_or_latest st season_arg) home away"
  assume "\<exists>r \<in> set (df st). row_season r = season_or_latest st season_arg
                            \<and> lower (row_home_team_name r) = lower home
                            \<and> lower (row_away_team_name r) = lower away"
  then have "filter ?P (df st) \<noteq> []"
    by (auto simp: filter_empty_conv fixture_mask_def)
  then obtain row rest where fr: "filter ?P (df st) = row # rest"
    by (cases "filter ?P (df st)") auto
  then have "row \<in> set (filter ?P (df st))" by simp
  then have "row \<in> set (df st)" "?P row" by auto
  moreover have "get_fixture st season_arg home away = Inr (build_features_from_row st row)"
    using fr by (simp add: get_fixture_def)
  ultimately show "\<exists>row \<in> set (df st). row_season row = season_or_latest st season_arg
            \<and> lower (row_home_team_name row) = lower home
            \<and> lower (row_away_team_name row) = lower away
            \<and> get_fixture st season_arg home away = Inr (build_features_from_row st row)"
    by (auto simp: fixture_mask_def)
next
  let ?P = "\<lambda>r. row_match_id r = mid"
  assume "\<exists>r \<in> set (df st). row_match_id r = mid"
  then have "filter ?P (df st) \<noteq> []"
    by (auto simp: filter_empty_conv)
  then obtain row rest where fr: "filter ?P (df st) = row # rest"
    by (cases "filter ?P (df st)") auto
  then have "row \<in> set (filter ?P (df st))" by simp
  then have "row \<in> set (df st)" "?P row" by auto
  moreover have "get_fixture_by_id st mid = Inr (build_features_from_row st row)"
    using fr by (simp add: get_fixture_by_id_def)
  ultimately show "\<exists>row \<in> set (df st). row_match_id row = mid
            \<and> get_fixture_by_id st mid = Inr (build_features_from_row st row)"
    by auto
next
  assume "lower home' = lower home \<and> lower away' = lower away"
  then have "fixture_mask s home' away' = fixture_mask s home away" for s
    by (auto simp: fixture_mask_def fun_eq_iff)
  then show "get_fixture st season_arg home' away' = get_fixture st season_arg home away"
    by (simp add: get_fixture_def)
qed

theorem fixture_not_found_witness:
  "get_fixture (demo_store None) (Some ''2024'') ''Chelsea'' ''Leeds'' = Inl NotFound
   \<and> get_fixture_by_id (demo_store None) 99 = Inl NotFound
   \<and> lower ''ARSENAL'' = lower ''Arsenal'' \<and> lower ''leeds'' = lower ''Leeds''
   \<and> get_fixture (demo_store None) (Some ''2024'') ''ARSENAL'' ''leeds''
       = get_fixture (demo_store None) (Some ''2024'') ''Arsenal'' ''Leeds''
   \<and> get_fixture (demo_store None) (Some ''2024'') ''ARSENAL'' ''leeds''
       = Inr (build_features_from_row (demo_store None) (demo_row 1 ''2024'' ''Arsenal'' ''Leeds''))
   \<and> (\<exists>row \<in> set (df (demo_store None)). row_match_id row = 1
         \<and> get_fixture_by_id (demo_store None) 1
             = Inr (build_features_from_row (demo_store None) row))"
proof -
  let ?st = "demo_store None"
  have low: "lower ''ARSENAL'' = lower ''Arsenal''" "lower ''leeds'' = lower ''Leeds''"
    "lower ''Chelsea'' \<noteq> lower ''Arsenal''"
    by (simp_all add: lower_def lower_char_def)
  have rows: "df ?st = [demo_row 1 ''2024'' ''Arsenal'' ''Leeds'', demo_row 2 ''2025'' ''Arsenal'' ''Leeds'']"
    by (simp add: demo_store_def)
  have none: "\<forall>r \<in> set (df ?st). \<not> (row_season r = season_or_latest ?st (Some ''2024'')
                            \<and> lower (row_home_team_name r) = lower ''Chelsea''
                            \<and> lower (row_away_team_name r) = lower ''Leeds'')"
    using low by (simp add: rows demo_row_def)
  have noid: "\<forall>r \<in> set (df ?st). row_match_id r \<noteq> 99"
    by (simp add: rows demo_row_def)
  have someid: "\<exists>r \<in> set (df ?st). row_match_id r = 1"
    by (simp add: rows demo_row_def)
  have found: "get_fixture ?st (Some ''2024'') ''Arsenal'' ''Leeds''
       = Inr (build_features_from_row ?st (demo_row 1 ''2024'' ''Arsenal'' ''Leeds''))"
    by (simp add: get_fixture_def fixture_mask_def season_or_latest_def rows)
       (simp add: demo_row_def)
  note a = fixture_not_found [of ?st "Some ''2024''" "''Chelsea''" "''Leeds''" 99]
  note b = fixture_not_found [of ?st "Some ''2024''" "''Arsenal''" "''Leeds''" 1 "''ARSENAL''" "''leeds''"]
  from a none have c1: "get_fixture ?st (Some ''2024'') ''Chelsea'' ''Leeds'' = Inl NotFound"
    by blast
  from a noid have c2: "get_fixture_by_id ?st 99 = Inl NotFound"
    by blast
  from b low have c3: "get_fixture ?st (Some ''2024'') ''ARSENAL'' ''leeds''
       = get_fixture ?st (Some ''2024'') ''Arsenal'' ''Leeds''"
    by blast
  from b someid have c4: "\<exists>row \<in> set (df ?st). row_match_id row = 1
         \<and> get_fixture_by_id ?st 1 = Inr (build_features_from_row ?st row)"
    by blast
  from c1 c2 c3 c4 low found show ?thesis
    by simp
qed

lemma latest_season_nonempty: "latest_season st \<noteq> []"
  by (simp add: latest_season_def Let_def)

lemma first_match_find:
  "(case filter P xs of [] \<Rightarrow> a | x # _ \<Rightarrow> f x) = (case List.find P xs of None \<Rightarrow> a | Some x \<Rightarrow> f x)"
  by (induction xs) simp_all

text \<open>
  Claim C9. A call of \<open>get_fixture\<close> with no season, or with the empty string, raises nothing
  for the missing argument: it looks the fixture up in the latest season of the store. Its
  result is built from the first row of the table whose season is the latest season and whose
  team names are, letter case aside, the names asked for, and it is the not-found error only
  when the table has no such row; it is the result of the call with the latest season given.
  When the table has a row with a season, the latest season is a season of the table and no
  season of the table is greater (seasons are compared as strings, which for years of four
  digits is the order of the years).
\<close>

theorem missing_season_uses_latest:
  "get_fixture st None home away =
     (case List.find (\<lambda>r. row_season r = latest_season st
                            \<and> lower (row_home_team_name r) = lower home
                            \<and> lower (row_away_team_name r) = lower away) (df st) of
        None \<Rightarrow> Inl NotFound
      | Some row \<Rightarrow> Inr (build_features_from_row st row))
   \<and> get_fixture st (Some []) home away =
     (case List.find (\<lambda>r. row_season r = latest_season st
                            \<and> lower (row_home_team_name r) = lower home
                            \<and> lower (row_away_team_name r) = lower away) (df st) of
        None \<Rightarrow> Inl NotFound
      | Some row \<Rightarrow> Inr (build_features_from_row st row))
   \<and> get_fixture st None home away = get_fixture st (Some (latest_season st)) home away
   \<and> get_fixture st (Some []) home away = get_fixture st (Some (latest_season st)) home away
   \<and> ((\<exists>r \<in> set (df st). row_season r \<noteq> []) \<longrightarrow>
        latest_season st \<in> set (map row_season (df st))
        \<and> (\<forall>r \<in> set (df st). row_season r \<le> latest_season st))"
proof (intro conjI impI)
  have mask: "fixture_mask (latest_season st) home away =
      (\<lambda>r. row_season r = latest_season st \<and> lower (row_home_team_name r) = lower home
            \<and> lower (row_away_team_name r) = lower away)"
    by (simp add: fixture_mask_def fun_eq_iff)
  show "get_fixture st None home away =
     (case List.find (\<lambda>r. row_season r = latest_season st
                            \<and> lower (row_home_team_name r) = lower home
                            \<and> lower (row_away_team_name r) = lower away) (df st) of
        None \<Rightarrow> Inl NotFound
      | Some row \<Rightarrow> Inr (build_features_from_row st row))"
    unfolding get_fixture_def first_match_find
    by (simp add: season_or_latest_def mask)
  show "get_fixture st (Some []) home away =
     (case List.find (\<lambda>r. row_season r = latest_season st
                            \<and> lower (row_home_team_name r) = lower home
                            \<and> lower (row_away_team_name r) = lower away) (df st) of
        None \<Rightarrow> Inl NotFound
      | Some row \<Rightarrow> Inr (build_features_from_row st row))"
    unfolding get_fixture_def first_match_find
    by (simp add: season_or_latest_def mask)
  show "get_fixture st None home away = get_fixture st (Some (latest_season st)) home away"
    by (simp add: get_fixture_def season_or_latest_def latest_season_nonempty)
  show "get_fixture st (Some []) home away = get_fixture st (Some (latest_season st)) home away"
    by (simp add: get_fixture_def season_or_latest_def latest_season_nonempty)
next
  assume "\<exists>r \<in> set (df st). row_season r \<noteq> []"
  then obtain r where r: "r \<in> set (df st)" "row_season r \<noteq> []" by blast
  let ?S = "set (map row_season (df st))"
  have fin: "finite ?S" and ne: "?S \<noteq> {}" using r by auto
  have "row_season r \<le> Max ?S" using r(1) fin by (intro Max_ge) auto
  with r(2) have "Max ?S \<noteq> []" by auto
  then have eq: "latest_season st = Max ?S"
    using r(1) by (auto simp: latest_season_def Let_def)
  show "latest_season st \<in> set (map row_season (df st))"
    unfolding eq using Max_in [OF fin ne] .
  show "\<forall>r \<in> set (df st). row_season r \<le> latest_season st"
    unfolding eq using fin by (auto intro: Max_ge)
qed

theorem missing_season_uses_latest_witness:
  "get_fixture (demo_store None) None ''arsenal'' ''LEEDS''
     = Inr (build_features_from_row (demo_store None) (demo_row 2 ''2025'' ''Arsenal'' ''Leeds''))
   \<and> get_fixture (demo_store None) (Some []) ''arsenal'' ''LEEDS''
     = Inr (build_features_from_row (demo_store None) (demo_row 2 ''2025'' ''Arsenal'' ''Leeds''))
   \<and> ff_match_id (fst (build_features_from_row (demo_store None)
         (demo_row 2 ''2025'' ''Arsenal'' ''Leeds''))) = 2
   \<and> ff_season (fst (build_features_from_row (demo_store None)
         (demo_row 2 ''2025'' ''Arsenal'' ''Leeds''))) = ''2025''
   \<and> get_fixture (demo_store None) None ''Chelsea'' ''Leeds'' = Inl NotFound
   \<and> latest_season (demo_store None) = ''2025''
   \<and> latest_season (demo_store None) \<in> set (map row_season (df (demo_store None)))
   \<and> row_season (demo_row 1 ''2024'' ''Arsenal'' ''Leeds'') \<le> latest_season (demo_store None)"
proof -
  let ?st = "demo_store None"
  have ex: "\<exists>r \<in> set (df ?st). row_season r \<noteq> []"
    by (simp add: demo_store_def demo_row_def)
  have l: "latest_season ?st = ''2025''"
    by (simp add: latest_season_def demo_store_def demo_row_def Let_def)
  have r: "demo_row 1 ''2024'' ''Arsenal'' ''Leeds'' \<in> set (df ?st)"
    by (simp add: demo_store_def)
  have rows: "df ?st = [demo_row 1 ''2024'' ''Arsenal'' ''Leeds'', demo_row 2 ''2025'' ''Arsenal'' ''Leeds'']"
    by (simp add: demo_store_def)
  have low: "lower ''arsenal'' = lower ''Arsenal''" "lower ''LEEDS'' = lower ''Leeds''"
    "lower ''Arsenal'' \<noteq> lower ''Chelsea''"
    by (simp_all add: lower_def lower_char_def)
  have found: "List.find (\<lambda>r. row_season r = latest_season ?st
                            \<and> lower (row_home_team_name r) = lower ''arsenal''
                            \<and> lower (row_away_team_name r) = lower ''LEEDS'') (df ?st)
      = Some (demo_row 2 ''2025'' ''Arsenal'' ''Leeds'')"
    by (simp add: rows l low) (simp add: demo_row_def)
  have absent: "List.find (\<lambda>r. row_season r = latest_season ?st
                            \<and> lower (row_home_team_name r) = lower ''Chelsea''
                            \<and> lower (row_away_team_name r) = lower ''Leeds'') (df ?st) = None"
    using low by (simp add: rows l) (simp add: demo_row_def)
  have built: "ff_match_id (fst (build_features_from_row ?st (demo_row 2 ''2025'' ''Arsenal'' ''Leeds''))) = 2"
    "ff_season (fst (build_features_from_row ?st (demo_row 2 ''2025'' ''Arsenal'' ''Leeds''))) = ''2025''"
    by (simp_all add: build_features_from_row_def cache_lookup_def demo_store_def fixture_of_def
        demo_row_def Let_def split: prod.splits)
  note t = missing_season_uses_latest [of ?st "''arsenal''" "''LEEDS''"]
  note u = missing_season_uses_latest [of ?st "''Chelsea''" "''Leeds''"]
  from t found have a: "get_fixture ?st None ''arsenal'' ''LEEDS''
      = Inr (build_features_from_row ?st (demo_row 2 ''2025'' ''Arsenal'' ''Leeds''))"
    and b: "get_fixture ?st (Some []) ''arsenal'' ''LEEDS''
      = Inr (build_features_from_row ?st (demo_row 2 ''2025'' ''Arsenal'' ''Leeds''))"
    by simp_all
  from u absent have c: "get_fixture ?st None ''Chelsea'' ''Leeds'' = Inl NotFound"
    by simp
  from t ex have "latest_season ?st \<in> set (map row_season (df ?st))"
    and "\<forall>r \<in> set (df ?st). row_season r \<le> latest_season ?st"
    by blast+
  with r have d: "latest_season ?st \<in> set (map row_season (df ?st))"
    and e: "row_season (demo_row 1 ''2024'' ''Arsenal'' ''Leeds'') \<le> latest_season ?st"
    by blast+
  from a b c d e l built show ?thesis
    by blast
qed

section \<open>Frames and sequences of assignments\<close>

lemma row_get_update:
  "row_get (r\<lparr> row_cells := (row_cells r)(n \<mapsto> cell_of v) \<rparr>) m =
     (if m = n then v else row_get r m)"
  by (cases v) (simp_all add: row_get_def cell_of_def)

lemma set_column_rows:
  assumes "length vals = length (rows fr)"
  shows "length (rows (set_column n vals fr)) = length (rows fr)"
    and "column m (rows (set_column n vals fr)) = (if m = n then vals else column m (rows fr))"
    and "map row_season (rows (set_column n vals fr)) = map row_season (rows fr)"
    and "map row_home_team_name (rows (set_column n vals fr)) = map row_home_team_name (rows fr)"
    and "map row_away_team_name (rows (set_column n vals fr)) = map row_away_team_name (rows fr)"
proof -
  show "length (rows (set_column n vals fr)) = length (rows fr)"
    using assms by (simp add: set_column_def)
  show "column m (rows (set_column n vals fr)) = (if m = n then vals else column m (rows fr))"
    using assms
    by (intro nth_equalityI) (simp_all add: set_column_def column_def row_get_update)
  show "map row_season (rows (set_column n vals fr)) = map row_season (rows fr)"
    using assms by (intro nth_equalityI) (simp_all add: set_column_def)
  show "map row_home_team_name (rows (set_column n vals fr)) = map row_home_team_name (rows fr)"
    using assms by (intro nth_equalityI) (simp_all add: set_column_def)
  show "map row_away_team_name (rows (set_column n vals fr)) = map row_away_team_name (rows fr)"
    using assms by (intro nth_equalityI) (simp_all add: set_column_def)
qed

lemma set_column_columns [simp]: "columns (set_column n vals fr) = insert n (columns fr)"
  by (simp add: set_column_def)

lemma length_column [simp]: "length (column n table) = length table"
  by (simp add: column_def)

lemma column_nth: "i < length table \<Longrightarrow> column n table ! i = row_get (table ! i) n"
  by (simp add: column_def)

lemma agrees_refl: "agrees W fr fr"
  by (simp add: agrees_def)

lemma agrees_mono: "agrees V f0 g \<Longrightarrow> V \<subseteq> W \<Longrightarrow> agrees W f0 g"
  by (auto simp: agrees_def)

lemma agrees_set_column:
  assumes "agrees V f0 g" "length vals = length (rows g)"
  shows "agrees (insert n V) f0 (set_column n vals g)"
proof -
  note r = set_column_rows [OF assms(2), where n = n]
  have other: "column m (rows (set_column n vals g)) = column m (rows f0)"
    if "m \<notin> insert n V" for m
  proof -
    from that have "m \<noteq> n" "m \<notin> V" by auto
    then show ?thesis using r(2) [of m] assms(1) by (simp add: agrees_def)
  qed
  have "columns f0 \<subseteq> columns (set_column n vals g)"
    using assms(1) by (auto simp: agrees_def)
  with other r(1,3,4,5) assms(1) show ?thesis
    by (simp add: agrees_def)
qed

lemma agrees_side:
  assumes "agrees W f0 g"
  shows "map (side_name s) (rows g) = map (side_name s) (rows f0)"
    and "map (side_key s) (rows g) = map (side_key s) (rows f0)"
proof -
  from assms have len: "length (rows g) = length (rows f0)"
    and se: "map row_season (rows g) = map row_season (rows f0)"
    and ho: "map row_home_team_name (rows g) = map row_home_team_name (rows f0)"
    and aw: "map row_away_team_name (rows g) = map row_away_team_name (rows f0)"
    by (simp_all add: agrees_def)
  have f: "row_season (rows g ! i) = row_season (rows f0 ! i)
      \<and> row_home_team_name (rows g ! i) = row_home_team_name (rows f0 ! i)
      \<and> row_away_team_name (rows g ! i) = row_away_team_name (rows f0 ! i)"
    if "i < length (rows f0)" for i
    using that len nth_map [of i "rows g" row_season] nth_map [of i "rows f0" row_season]
      nth_map [of i "rows g" row_home_team_name] nth_map [of i "rows f0" row_home_team_name]
      nth_map [of i "rows g" row_away_team_name] nth_map [of i "rows f0" row_away_team_name]
      se ho aw
    by simp
  show "map (side_name s) (rows g) = map (side_name s) (rows f0)"
    using len f by (intro nth_equalityI) (cases s; simp)+
  show "map (side_key s) (rows g) = map (side_key s) (rows f0)"
    using len f by (intro nth_equalityI) (cases s; simp add: side_key_def)+
qed

text \<open>
  A sequence of assignments whose right-hand sides read only columns that none of them
  writes: every one succeeds, and the frame ends with the expected columns.
\<close>

lemma fold_assign:
  assumes comp: "\<And>x g. x \<in> set specs \<Longrightarrow> agrees W f0 g \<Longrightarrow>
                  fst (snd x) g = Inr (snd (snd x)) \<and> length (snd (snd x)) = length (rows f0)"
    and "fst ` set specs \<subseteq> W" and "distinct (map fst specs)"
  shows "\<exists>g. fold (\<lambda>x. assign (fst x) (fst (snd x))) specs (Inr f0) = Inr g
           \<and> agrees (fst ` set specs) f0 g
           \<and> (\<forall>x \<in> set specs. column (fst x) (rows g) = snd (snd x))"
  using assms
proof (induction specs rule: rev_induct)
  case Nil
  show ?case by (simp add: agrees_refl)
next
  case (snoc x xs)
  have "\<exists>g. fold (\<lambda>x. assign (fst x) (fst (snd x))) xs (Inr f0) = Inr g
           \<and> agrees (fst ` set xs) f0 g
           \<and> (\<forall>x \<in> set xs. column (fst x) (rows g) = snd (snd x))"
    using snoc.prems by (intro snoc.IH) auto
  then obtain g where g: "fold (\<lambda>x. assign (fst x) (fst (snd x))) xs (Inr f0) = Inr g"
    and ag: "agrees (fst ` set xs) f0 g"
    and vs: "\<forall>y \<in> set xs. column (fst y) (rows g) = snd (snd y)"
    by blast
  have "agrees W f0 g"
    using ag snoc.prems(2) by (intro agrees_mono [OF ag]) auto
  then have c: "fst (snd x) g = Inr (snd (snd x))" and l: "length (snd (snd x)) = length (rows f0)"
    using snoc.prems(1) [of x g] by simp_all
  have lg: "length (rows g) = length (rows f0)" using ag by (simp add: agrees_def)
  let ?g' = "set_column (fst x) (snd (snd x)) g"
  have step: "fold (\<lambda>x. assign (fst x) (fst (snd x))) (xs @ [x]) (Inr f0) = Inr ?g'"
    by (simp add: g assign_def c)
  have ag': "agrees (fst ` set (xs @ [x])) f0 ?g'"
    using agrees_set_column [OF ag, of "snd (snd x)" "fst x"] l lg by simp
  have new: "column (fst x) (rows ?g') = snd (snd x)"
    using l lg by (simp add: set_column_rows)
  have old: "column (fst y) (rows ?g') = snd (snd y)" if "y \<in> set xs" for y
  proof -
    have "fst x \<notin> set (map fst xs)" using snoc.prems(3) by simp
    moreover have "fst y \<in> set (map fst xs)" using that by simp
    ultimately have "fst y \<noteq> fst x" by metis
    then have "column (fst y) (rows ?g') = column (fst y) (rows g)"
      using l lg by (simp add: set_column_rows)
    with vs that show ?thesis by simp
  qed
  from step ag' new old show ?case by auto
qed


section \<open>Smoothed averages\<close>

lemma length_recent_games_frac [simp]: "length (recent_games_frac window ks) = length ks"
  by (simp add: recent_games_frac_def)

lemma recent_games_nth:
  assumes "0 < window" "j < length ks"
  shows "recent_games_frac window ks ! j = Some (real (games_played window ks j) / real window)"
  using assms by (simp add: recent_games_frac_def games_played_def)

lemma clip_games_frac:
  assumes "0 < window"
  shows "clip 0 1 (Some (real (games_played window ks j) / real window))
         = Some (real (games_played window ks j) / real window)"
proof -
  have "games_played window ks j \<le> window" by (simp add: games_played_def)
  then have "real (games_played window ks j) / real window \<le> 1"
    using assms by simp
  then have hi: "\<not> 1 < real (games_played window ks j) / real window" by simp
  have "0 \<le> real (games_played window ks j) / real window" by simp
  then have lo: "\<not> real (games_played window ks j) / real window < 0" by (simp only: not_less)
  show ?thesis
    unfolding clip_def clip_value_def option.map using hi lo by (simp only: if_False)
qed

lemma per_match_series:
  assumes "0 < window" "length totals = length ks"
  shows "map (\<lambda>(s, g). div_cell s (if g = Some 0 then None else g))
             (zip totals (map (map_option (\<lambda>f. f * real window)) (recent_games_frac window ks)))
         = map (rate_at window ks totals) [0..<length ks]"
proof (rule nth_equalityI)
  show "length (map (\<lambda>(s, g). div_cell s (if g = Some 0 then None else g))
             (zip totals (map (map_option (\<lambda>f. f * real window)) (recent_games_frac window ks))))
        = length (map (rate_at window ks totals) [0..<length ks])"
    using assms(2) by simp
next
  fix j
  assume "j < length (map (\<lambda>(s, g). div_cell s (if g = Some 0 then None else g))
             (zip totals (map (map_option (\<lambda>f. f * real window)) (recent_games_frac window ks))))"
  then have j: "j < length ks" using assms(2) by simp
  have g: "map_option (\<lambda>f. f * real window) (recent_games_frac window ks ! j)
      = Some (real (games_played window ks j))"
    using assms(1) by (simp add: recent_games_nth [OF assms(1) j])
  have "map (\<lambda>(s, g). div_cell s (if g = Some 0 then None else g))
             (zip totals (map (map_option (\<lambda>f. f * real window)) (recent_games_frac window ks))) ! j
      = div_cell (totals ! j)
          (if map_option (\<lambda>f. f * real window) (recent_games_frac window ks ! j) = Some 0
           then None else map_option (\<lambda>f. f * real window) (recent_games_frac window ks ! j))"
    using j assms(2) by simp
  also have "\<dots> = rate_at window ks totals j"
    unfolding g by (simp add: rate_at_def div_cell_def split: option.splits)
  finally show "map (\<lambda>(s, g). div_cell s (if g = Some 0 then None else g))
             (zip totals (map (map_option (\<lambda>f. f * real window)) (recent_games_frac window ks))) ! j
         = map (rate_at window ks totals) [0..<length ks] ! j"
    using j by simp
qed

lemma length_smoothed_avg:
  "length totals = length fracs \<Longrightarrow> length (smoothed_avg totals fracs window) = length fracs"
  by (simp add: smoothed_avg_def Let_def)

text \<open>The smoothed average of a row, over the lists of keys and totals.\<close>

lemma smoothed_avg_nth:
  assumes "0 < window" and "length totals = length ks" and "i < length ks"
  shows "smoothed_avg totals (recent_games_frac window ks) window ! i =
     Some (let prior = (case mean_dropna (map (rate_at window ks totals) [0..<length ks]) of
                     None \<Rightarrow> 0 | Some m \<Rightarrow> m);
          frac = real (games_played window ks i) / real window
      in frac * (case rate_at window ks totals i of None \<Rightarrow> prior | Some x \<Rightarrow> x)
         + (1 - frac) * prior)"
proof -
  let ?frac = "recent_games_frac window ks"
  let ?pm = "map (rate_at window ks totals) [0..<length ks]"
  let ?prior = "case mean_dropna ?pm of None \<Rightarrow> 0 | Some m \<Rightarrow> m"
  have sm: "smoothed_avg totals ?frac window =
      map (\<lambda>(a, pm). map_option (\<lambda>w. w * pm + (1 - w) * ?prior) a)
          (zip (map (clip 0 1) ?frac)
               (map (\<lambda>v. case v of None \<Rightarrow> ?prior | Some x \<Rightarrow> x) ?pm))"
    unfolding smoothed_avg_def Let_def per_match_series [OF assms(1,2)]
    by (rule refl)
  have "smoothed_avg totals ?frac window ! i =
      map_option (\<lambda>w. w * (case rate_at window ks totals i of None \<Rightarrow> ?prior | Some x \<Rightarrow> x)
                       + (1 - w) * ?prior) (clip 0 1 (?frac ! i))"
    using assms(3) by (simp add: sm)
  also have "clip 0 1 (?frac ! i) = Some (real (games_played window ks i) / real window)"
    unfolding recent_games_nth [OF assms(1,3)] by (rule clip_games_frac [OF assms(1)])
  finally show ?thesis by (simp add: Let_def)
qed

text \<open>The group number of a row under the keys of a side counts its same-side games.\<close>

lemma cumcount_side:
  assumes "i < length table"
  shows "cumcount (map (side_key s) table) ! i = same_side_games s table i"
proof -
  have "cumcount (map (side_key s) table) ! i =
        length (filter (\<lambda>k. k = side_key s (table ! i)) (take i (map (side_key s) table)))"
    using assms by (simp add: cumcount_nth)
  also have "\<dots> = length (filter (\<lambda>r. side_key s r = side_key s (table ! i)) (take i table))"
    by (simp add: take_map filter_map comp_def)
  also have "\<dots> = same_side_games s table i"
    by (simp add: same_side_games_def side_key_def)
  finally show ?thesis .
qed

lemma rate_at_side:
  assumes "j < length table"
  shows "rate_at window (map (side_key s) table) (column last5 table) j
         = per_match_rate s last5 window table j"
proof -
  have g: "games_played window (map (side_key s) table) j
      = min (same_side_games s table j) window"
    using assms by (simp add: games_played_def cumcount_side)
  have c: "column last5 table ! j = row_get (table ! j) last5"
    using assms by (simp add: column_def)
  show ?thesis
    unfolding rate_at_def per_match_rate_def g c by (rule refl)
qed

lemma prior_side:
  "(case mean_dropna (map (rate_at window (map (side_key s) table)
                             (column last5 table)) [0..<length table]) of
      None \<Rightarrow> 0 | Some m \<Rightarrow> m)
   = global_prior_mean s last5 window table"
proof -
  have eq: "map (rate_at window (map (side_key s) table) (column last5 table))
            [0..<length table]
        = map (per_match_rate s last5 window table) [0..<length table]"
    by (rule map_cong [OF refl]) (simp add: rate_at_side)
  show ?thesis
    unfolding mean_dropna_def global_prior_mean_def Let_def eq by simp
qed

text \<open>The smoothed average of a row of a table, in the terms of the table.\<close>

lemma smoothed_avg_table:
  assumes "0 < window" and "i < length table"
  shows "smoothed_avg (column last5 table) (recent_games_frac window (map (side_key s) table))
            window ! i =
     Some (let games = real (min (same_side_games s table i) window);
          frac = games / real window;
          prior = global_prior_mean s last5 window table
      in case row_get (table ! i) last5 of
           Some window_sum \<Rightarrow>
             if games = 0 then prior else frac * (window_sum / games) + (1 - frac) * prior
         | None \<Rightarrow> prior)"
proof -
  let ?ks = "map (side_key s) table"
  let ?prior = "global_prior_mean s last5 window table"
  let ?g = "real (min (same_side_games s table i) window)"
  let ?v = "smoothed_avg (column last5 table) (recent_games_frac window ?ks) window ! i"
  have len: "length (column last5 table) = length ?ks" "i < length ?ks"
    using assms(2) by (simp_all add: column_def)
  have g: "real (games_played window ?ks i) = ?g"
    using assms(2) by (simp add: games_played_def cumcount_side)
  have main: "?v =
      Some (?g / real window * (case per_match_rate s last5 window table i of
                            None \<Rightarrow> ?prior | Some x \<Rightarrow> x)
      + (1 - ?g / real window) * ?prior)"
    using smoothed_avg_nth [OF assms(1) len]
    unfolding Let_def length_map prior_side rate_at_side [OF assms(2)] g .
  show ?thesis
  proof (cases "row_get (table ! i) last5")
    case None
    then have "per_match_rate s last5 window table i = None"
      by (simp add: per_match_rate_def)
    with main have "?v = Some ?prior"
      by (simp add: algebra_simps)
    with None show ?thesis by (simp add: Let_def)
  next
    case (Some x)
    show ?thesis
    proof (cases "min (same_side_games s table i) window = 0")
      case True
      with Some have "per_match_rate s last5 window table i = None"
        by (simp add: per_match_rate_def)
      with main True have "?v = Some ?prior"
        by simp
      with Some True show ?thesis unfolding Let_def by simp
    next
      case False
      with Some have "per_match_rate s last5 window table i = Some (x / ?g)"
        by (simp add: per_match_rate_def)
      with main have "?v =
          Some (?g / real window * (x / ?g) + (1 - ?g / real window) * ?prior)"
        by (simp only: option.case)
      with False show ?thesis
        by (simp only: Some option.case of_nat_eq_0_iff if_False Let_def)
    qed
  qed
qed

lemma smoothed_names:
  assumes "(avg, last5, s) \<in> set smoothed_columns"
  shows "last5 \<notin> fst ` set smoothed_columns"
    and "frac_name s \<notin> fst ` set smoothed_columns"
    and "last5 \<noteq> ''home_recent_games_frac''" and "last5 \<noteq> ''away_recent_games_frac''"
    and "last5 \<in> set last5_names"
  using assms by (auto simp: smoothed_columns_def last5_names_def)

lemma distinct_smoothed: "distinct (map fst smoothed_columns)"
  by (simp add: smoothed_columns_def)

lemma fold_triples:
  "fold (\<lambda>(a, b, c). assign a (f b c)) specs acc
   = fold (\<lambda>x. assign (fst x) (fst (snd x))) (map (\<lambda>(a, b, c). (a, f b c, v b c)) specs) acc"
  by (simp add: fold_map comp_def split_def)

text \<open>
  The frame after \<open>_prepare_smoothed_form\<close>, when the frame brought neither the fractions nor
  the averages and has the ten window sums: no exception, and every averaged column is the
  smoothed average of its window sum with the fraction of its side.
\<close>

lemma prepare_smoothed_form_columns:
  assumes g1: "''home_recent_games_frac'' \<notin> columns fr"
    and g2: "''home_goals_for_avg5'' \<notin> columns fr"
    and l5: "set last5_names \<subseteq> columns fr"
  shows "\<exists>g. prepare_smoothed_form window fr = Inr g
           \<and> length (rows g) = length (rows fr)
           \<and> (\<forall>x \<in> set smoothed_columns.
                 column (fst x) (rows g) =
                   smoothed_avg (column (fst (snd x)) (rows fr))
                     (recent_games_frac window (map (side_key (snd (snd x))) (rows fr))) window)"
proof -
  let ?h = "''home_recent_games_frac''"
  let ?a = "''away_recent_games_frac''"
  define f0 where "f0 = set_column ?h (recent_games_frac window (map (side_key Home) (rows fr))) fr"
  define f1 where "f1 = set_column ?a (recent_games_frac window (map (side_key Away) (rows fr))) f0"
  define W where "W = fst ` set smoothed_columns"
  define val where "val = (\<lambda>last5 s. smoothed_avg (column last5 (rows fr))
                     (recent_games_frac window (map (side_key s) (rows fr))) window)"
  define specs where "specs = map (\<lambda>(avg, last5, s).
      (avg, smoothed_of last5 (frac_name s) window, val last5 s)) smoothed_columns"
  have len0: "length (rows f0) = length (rows fr)"
    by (simp add: f0_def set_column_rows)
  have len1: "length (rows f1) = length (rows fr)"
    by (simp add: f1_def set_column_rows len0)
  have col0: "column m (rows f0) = (if m = ?h then recent_games_frac window (map (side_key Home) (rows fr))
                                    else column m (rows fr))" for m
    unfolding f0_def by (rule set_column_rows(2)) simp
  have col1: "column m (rows f1) =
      (if m = ?a then recent_games_frac window (map (side_key Away) (rows fr))
       else column m (rows f0))" for m
    unfolding f1_def by (rule set_column_rows(2)) (simp add: len0)
  have cols1: "columns f1 = insert ?a (insert ?h (columns fr))"
    by (simp add: f1_def f0_def)
  have frac1: "column (frac_name s) (rows f1) = recent_games_frac window (map (side_key s) (rows fr))"
    for s
    by (cases s) (simp_all add: col1 col0)
  have "last5_names \<noteq> []" by (simp add: last5_names_def smoothed_columns_def)
  have first: "''home_goals_for_last_5'' \<in> set last5_names"
    by (simp add: last5_names_def smoothed_columns_def)
  have guard: "''home_goals_for_avg5'' \<notin> columns f1 \<and> ''home_goals_for_last_5'' \<in> columns f1"
    using g2 l5 first by (auto simp: cols1)
  have run: "prepare_smoothed_form window fr =
      fold (\<lambda>x. assign (fst x) (fst (snd x))) specs (Inr f1)"
    unfolding prepare_smoothed_form_def Let_def specs_def
    using g1 guard
    by (simp only: f0_def [symmetric] f1_def [symmetric] if_True simp_thms fold_triples [where v = val])
  have comp: "fst (snd x) g = Inr (snd (snd x)) \<and> length (snd (snd x)) = length (rows f1)"
    if x: "x \<in> set specs" and ag: "agrees W f1 g" for x g
  proof -
    from x obtain avg last5 s where m: "(avg, last5, s) \<in> set smoothed_columns"
      and xe: "x = (avg, smoothed_of last5 (frac_name s) window, val last5 s)"
      by (auto simp: specs_def)
    note n = smoothed_names [OF m]
    have sub: "columns f1 \<subseteq> columns g"
      and same: "\<And>n. n \<notin> W \<Longrightarrow> column n (rows g) = column n (rows f1)"
      using ag by (simp_all add: agrees_def)
    have in5: "last5 \<in> columns g" using n(5) l5 sub cols1 by auto
    have inf: "frac_name s \<in> columns g" using sub cols1 by (cases s) auto
    have c5: "column last5 (rows g) = column last5 (rows fr)"
      using same [of last5] n(1,3,4) by (simp add: W_def col1 col0)
    have cf: "column (frac_name s) (rows g) = recent_games_frac window (map (side_key s) (rows fr))"
      using same [of "frac_name s"] n(2) by (simp add: W_def frac1)
    have "smoothed_of last5 (frac_name s) window g = Inr (val last5 s)"
      by (simp add: smoothed_of_def read_column_def in5 inf c5 cf val_def)
    moreover have "length (val last5 s) = length (rows f1)"
      by (simp add: val_def length_smoothed_avg len1)
    ultimately show ?thesis by (simp add: xe)
  qed
  have names: "fst ` set specs = W"
    by (force simp: specs_def W_def)
  have dist: "distinct (map fst specs)"
    using distinct_smoothed by (simp add: specs_def comp_def split_def)
  from fold_assign [of specs W f1, OF comp] names dist
  obtain g where g: "fold (\<lambda>x. assign (fst x) (fst (snd x))) specs (Inr f1) = Inr g"
    and ag: "agrees (fst ` set specs) f1 g"
    and vs: "\<forall>x \<in> set specs. column (fst x) (rows g) = snd (snd x)"
    by auto
  have "length (rows g) = length (rows fr)"
    using ag len1 by (simp add: agrees_def)
  moreover have "column (fst x) (rows g) = val (fst (snd x)) (snd (snd x))"
    if "x \<in> set smoothed_columns" for x
  proof -
    obtain avg last5 s where xe: "x = (avg, last5, s)" by (cases x) auto
    with that have "(avg, smoothed_of last5 (frac_name s) window, val last5 s) \<in> set specs"
      by (force simp: specs_def)
    with vs show ?thesis by (auto simp: xe)
  qed
  ultimately show ?thesis
    using run g by (auto simp: val_def)
qed

lemma cell_after_column:
  assumes "res = Inr g" "i < length (rows g)"
  shows "cell_after res name i = Inr (column name (rows g) ! i)"
  using assms by (simp add: cell_after_def column_nth)

text \<open>A frame that brings the fractions and the averages is left as it is.\<close>

lemma prepare_smoothed_form_present:
  assumes "''home_recent_games_frac'' \<in> columns fr" and "''home_goals_for_avg5'' \<in> columns fr"
  shows "prepare_smoothed_form window fr = Inr fr"
  using assms by (simp add: prepare_smoothed_form_def)

text \<open>
  Claim C5, as the code has it. Take a frame that brings neither the fractions of recent games
  nor the averaged columns, and has the ten window sums, and a window greater than 0. On every
  row, each averaged column is \<open>frac * (window_sum / games) + (1 - frac) * prior\<close>, where
  \<open>games\<close> is the smaller of the window and the number of earlier rows of the same season with
  the team of the row on the same side (the home team for a \<open>home_\<close> column, the away team for
  an \<open>away_\<close> column), \<open>frac = games / window\<close>, and \<open>prior\<close> is the global prior: the mean of the
  per-match rates \<open>window_sum / games\<close> of all rows of the table where the window sum is present
  and the games are not zero, or 0 when there is no such row. With zero games, and also where
  the window sum is missing, the value is the global prior.
\<close>

theorem smoothed_average_shrinkage:
  assumes "0 < window" and "i < length (rows fr)"
    and "''home_recent_games_frac'' \<notin> columns fr"
    and "''home_goals_for_avg5'' \<notin> columns fr"
    and "set last5_names \<subseteq> columns fr"
    and "(avg, last5, s) \<in> set smoothed_columns"
  shows "cell_after (prepare_smoothed_form window fr) avg i =
     Inr (Some (let games = real (min (same_side_games s (rows fr) i) window);
                    frac = games / real window;
                    prior = global_prior_mean s last5 window (rows fr)
                in case row_get (rows fr ! i) last5 of
                     Some window_sum \<Rightarrow>
                       if games = 0 then prior
                       else frac * (window_sum / games) + (1 - frac) * prior
                   | None \<Rightarrow> prior))"
proof -
  from prepare_smoothed_form_columns [OF assms(3,4,5), of window]
  obtain g where g: "prepare_smoothed_form window fr = Inr g"
    and len: "length (rows g) = length (rows fr)"
    and vs: "\<forall>x \<in> set smoothed_columns.
                 column (fst x) (rows g) =
                   smoothed_avg (column (fst (snd x)) (rows fr))
                     (recent_games_frac window (map (side_key (snd (snd x))) (rows fr))) window"
    by blast
  from vs assms(6) have col: "column avg (rows g) =
      smoothed_avg (column last5 (rows fr))
        (recent_games_frac window (map (side_key s) (rows fr))) window"
    by force
  have "cell_after (prepare_smoothed_form window fr) avg i = Inr (column avg (rows g) ! i)"
    using g assms(2) len by (intro cell_after_column) simp_all
  then show ?thesis
    unfolding col smoothed_avg_table [OF assms(1,2)] .
qed

theorem smoothed_average_shrinkage_witness:
  "cell_after (prepare_smoothed_form 5 stat_frame) ''home_goals_for_avg5'' 1
     = Inr (Some (1 / 5 * (4 / 1) + (1 - 1 / 5) * 4))
   \<and> cell_after (prepare_smoothed_form 5 stat_frame) ''home_goals_for_avg5'' 0 = Inr (Some 4)
   \<and> cell_after (prepare_smoothed_form 5 stat_frame) ''away_goals_for_avg5'' 2 = Inr (Some 0)
   \<and> same_side_games Home (rows stat_frame) 1 = 1
   \<and> same_side_games Home (rows stat_frame) 0 = 0
   \<and> row_get (rows stat_frame ! 1) ''home_goals_for_last_5'' = Some 4
   \<and> row_get (rows stat_frame ! 0) ''home_goals_for_last_5'' = Some 0
   \<and> global_prior_mean Home ''home_goals_for_last_5'' 5 (rows stat_frame) = 4
   \<and> global_prior_mean Away ''away_goals_for_last_5'' 5 (rows stat_frame) = 0"
proof -
  have w: "(0::nat) < 5" by simp
  have i: "(0::nat) < length (rows stat_frame)" "(1::nat) < length (rows stat_frame)"
    "(2::nat) < length (rows stat_frame)"
    by (simp_all add: stat_frame_def)
  have g1: "''home_recent_games_frac'' \<notin> columns stat_frame"
    and g2: "''home_goals_for_avg5'' \<notin> columns stat_frame"
    and l5: "set last5_names \<subseteq> columns stat_frame"
    by (simp_all add: stat_frame_def last5_names_def smoothed_columns_def)
  have m: "(''home_goals_for_avg5'', ''home_goals_for_last_5'', Home) \<in> set smoothed_columns"
    "(''away_goals_for_avg5'', ''away_goals_for_last_5'', Away) \<in> set smoothed_columns"
    by (simp_all add: smoothed_columns_def)
  have c: "same_side_games Home (rows stat_frame) 1 = 1"
    "same_side_games Home (rows stat_frame) 0 = 0"
    "same_side_games Away (rows stat_frame) 2 = 0"
    by code_simp+
  have v: "row_get (rows stat_frame ! 1) ''home_goals_for_last_5'' = Some 4"
    "row_get (rows stat_frame ! 0) ''home_goals_for_last_5'' = Some 0"
    "row_get (rows stat_frame ! 2) ''away_goals_for_last_5'' = Some 1"
    by code_simp+
  have p: "global_prior_mean Home ''home_goals_for_last_5'' 5 (rows stat_frame) = 4"
    "global_prior_mean Away ''away_goals_for_last_5'' 5 (rows stat_frame) = 0"
    by code_simp+
  from smoothed_average_shrinkage [OF w i(2) g1 g2 l5 m(1)]
    smoothed_average_shrinkage [OF w i(1) g1 g2 l5 m(1)]
    smoothed_average_shrinkage [OF w i(3) g1 g2 l5 m(2)]
    c v p
  show ?thesis by (simp add: Let_def)
qed

text \<open>
  The claim as the specification words it does not hold. In the table of the four matches
  Leeds v Arsenal, Leeds v Chelsea, Arsenal v Leeds and Everton v Fulham, Arsenal has played
  one match before its home match, so the claimed games are 1 and the claimed value of
  \<open>home_goals_for_avg5\<close> is \<open>1/5 * (1/1) + 4/5 * prior\<close>: 17/5 with the prior the code
  computes, 11/5 with the prior of the claim's own rates. The code counts no earlier home
  match of Arsenal and gives the prior, 4.
\<close>

theorem same_side_count_counterexample:
  "cell_after (prepare_smoothed_form 5 stat_frame) ''home_goals_for_avg5'' 2 = Inr (Some 4)
   \<and> matches_played Home (rows stat_frame) 2 = 1
   \<and> same_side_games Home (rows stat_frame) 2 = 0
   \<and> claimed_smoothed Home ''home_goals_for_last_5'' 5 (rows stat_frame)
        (global_prior_mean Home ''home_goals_for_last_5'' 5 (rows stat_frame)) 2 = 17 / 5
   \<and> claimed_smoothed Home ''home_goals_for_last_5'' 5 (rows stat_frame)
        (claimed_prior Home ''home_goals_for_last_5'' 5 (rows stat_frame)) 2 = 11 / 5
   \<and> cell_after (prepare_smoothed_form 5 stat_frame) ''home_goals_for_avg5'' 2
       \<noteq> Inr (Some (claimed_smoothed Home ''home_goals_for_last_5'' 5 (rows stat_frame)
                        (global_prior_mean Home ''home_goals_for_last_5'' 5 (rows stat_frame)) 2))
   \<and> cell_after (prepare_smoothed_form 5 stat_frame) ''home_goals_for_avg5'' 2
       \<noteq> Inr (Some (claimed_smoothed Home ''home_goals_for_last_5'' 5 (rows stat_frame)
                        (claimed_prior Home ''home_goals_for_last_5'' 5 (rows stat_frame)) 2))"
proof -
  have a: "cell_after (prepare_smoothed_form 5 stat_frame) ''home_goals_for_avg5'' 2 = Inr (Some 4)"
    by code_simp
  have b: "matches_played Home (rows stat_frame) 2 = 1"
    "same_side_games Home (rows stat_frame) 2 = 0"
    by code_simp+
  have c: "claimed_smoothed Home ''home_goals_for_last_5'' 5 (rows stat_frame)
        (global_prior_mean Home ''home_goals_for_last_5'' 5 (rows stat_frame)) 2 = 17 / 5"
    by code_simp
  have d: "claimed_smoothed Home ''home_goals_for_last_5'' 5 (rows stat_frame)
        (claimed_prior Home ''home_goals_for_last_5'' 5 (rows stat_frame)) 2 = 11 / 5"
    by code_simp
  show ?thesis unfolding a b c d by simp
qed


section \<open>Cold-start shot means\<close>

lemma length_prior_rolling_values [simp]:
  "length (prior_rolling_values ks vs window) = length ks"
  by (simp add: prior_rolling_values_def fillna0_def fillna_series_def Let_def)

lemma length_fill_median [simp]: "length (fill_median s) = length s"
  by (simp add: fill_median_def fillna_scalar_def)

text \<open>
  On the first row of a group the shifted rolling mean and the shifted value are both missing:
  the value is the median of the column, or 0 when the column has no median.
\<close>

lemma prior_rolling_values_first:
  assumes "length vs = length ks" "i < length ks" "ks ! i \<notin> set (take i ks)"
  shows "prior_rolling_values ks vs window ! i = (case median vs of None \<Rightarrow> 0 | Some m \<Rightarrow> m)"
proof -
  let ?g = "group_vals ks vs (ks ! i)"
  have c: "cumcount ks ! i = 0" by (rule first_in_group [OF assms(2,3)])
  have "cumcount ks ! i < length ?g"
    using assms(1,2) by (intro cumcount_less_group) simp_all
  then have ne: "?g \<noteq> []" by auto
  then have ne': "rolling_mean window ?g \<noteq> []"
    by (metis length_rolling_mean length_0_conv)
  have rolled: "group_transform ks vs (\<lambda>s. shift (rolling_mean window s)) ! i = None"
    using assms(2) by (simp add: group_transform_nth c shift_first [OF ne'])
  have shifted: "group_transform ks vs shift ! i = None"
    using assms(2) by (simp add: group_transform_nth c shift_first [OF ne])
  have fb: "fillna_scalar (median vs) (group_transform ks vs shift) ! i = median vs"
    using assms(2) shifted by (simp add: fillna_scalar_nth)
  have "fillna_series (fillna_scalar (median vs) (group_transform ks vs shift))
          (group_transform ks vs (\<lambda>s. shift (rolling_mean window s))) ! i = median vs"
    using assms(2) rolled fb by (simp add: fillna_series_nth fillna_scalar_def)
  moreover have "i < length (fillna_series (fillna_scalar (median vs) (group_transform ks vs shift))
          (group_transform ks vs (\<lambda>s. shift (rolling_mean window s))))"
    using assms(2) by (simp add: fillna_series_def)
  ultimately show ?thesis
    by (simp add: prior_rolling_values_def Let_def fillna0_nth)
qed

subsection \<open>The median of a filled column\<close>

lemma sorted_count_below:
  fixes S :: "real list"
  assumes "sorted S" "j < length S" "m \<le> S ! j"
  shows "length (filter (\<lambda>x. x < m) S) \<le> j"
proof -
  have "\<forall>x \<in> set (drop j S). m \<le> x"
  proof
    fix x assume "x \<in> set (drop j S)"
    then obtain k where "k < length (drop j S)" "drop j S ! k = x"
      by (auto simp: in_set_conv_nth)
    then have "x = S ! (j + k)" "j + k < length S" by auto
    with assms(1) have "S ! j \<le> x" by (simp add: sorted_nth_mono)
    with assms(3) show "m \<le> x" by simp
  qed
  then have "filter (\<lambda>x. x < m) (drop j S) = []"
    by (auto simp: filter_empty_conv)
  moreover have "filter (\<lambda>x. x < m) S =
      filter (\<lambda>x. x < m) (take j S) @ filter (\<lambda>x. x < m) (drop j S)"
    by (metis append_take_drop_id filter_append)
  ultimately have "filter (\<lambda>x. x < m) S = filter (\<lambda>x. x < m) (take j S)" by simp
  moreover have "length (filter (\<lambda>x. x < m) (take j S)) \<le> length (take j S)"
    by (rule length_filter_le)
  ultimately show ?thesis using assms(2) by simp
qed

lemma sorted_count_above:
  fixes S :: "real list"
  assumes "sorted S" "j < length S" "S ! j \<le> m"
  shows "j + length (filter (\<lambda>x. m < x) S) < length S"
proof -
  have "\<forall>x \<in> set (take (Suc j) S). x \<le> m"
  proof
    fix x assume "x \<in> set (take (Suc j) S)"
    then obtain k where "k < length (take (Suc j) S)" "take (Suc j) S ! k = x"
      by (auto simp: in_set_conv_nth)
    then have "x = S ! k" "k \<le> j" by auto
    with assms(1,2) have "x \<le> S ! j" by (simp add: sorted_nth_mono)
    with assms(3) show "x \<le> m" by simp
  qed
  then have "filter (\<lambda>x. m < x) (take (Suc j) S) = []"
    by (auto simp: filter_empty_conv)
  moreover have "filter (\<lambda>x. m < x) S =
      filter (\<lambda>x. m < x) (take (Suc j) S) @ filter (\<lambda>x. m < x) (drop (Suc j) S)"
    by (metis append_take_drop_id filter_append)
  ultimately have "filter (\<lambda>x. m < x) S = filter (\<lambda>x. m < x) (drop (Suc j) S)" by simp
  moreover have "length (filter (\<lambda>x. m < x) (drop (Suc j) S)) \<le> length (drop (Suc j) S)"
    by (rule length_filter_le)
  ultimately show ?thesis using assms(2) by simp
qed

lemma sorted_middle_value:
  fixes T :: "real list"
  assumes "sorted T" "j < length T"
    and "length (filter (\<lambda>x. x < m) T) \<le> j"
    and "j + length (filter (\<lambda>x. m < x) T) < length T"
  shows "T ! j = m"
proof (rule ccontr)
  assume ne: "T ! j \<noteq> m"
  show False
  proof (cases "T ! j < m")
    case True
    have "\<forall>x \<in> set (take (Suc j) T). x < m"
    proof
      fix x assume "x \<in> set (take (Suc j) T)"
      then obtain k where "k < length (take (Suc j) T)" "take (Suc j) T ! k = x"
        by (auto simp: in_set_conv_nth)
      then have "x = T ! k" "k \<le> j" by auto
      with assms(1,2) have "x \<le> T ! j" by (simp add: sorted_nth_mono)
      with True show "x < m" by simp
    qed
    then have "filter (\<lambda>x. x < m) (take (Suc j) T) = take (Suc j) T"
      by (auto simp: filter_id_conv)
    moreover have "filter (\<lambda>x. x < m) T =
        filter (\<lambda>x. x < m) (take (Suc j) T) @ filter (\<lambda>x. x < m) (drop (Suc j) T)"
      by (metis append_take_drop_id filter_append)
    ultimately have "length (filter (\<lambda>x. x < m) T) \<ge> length (take (Suc j) T)"
      by simp
    with assms(2,3) show False by simp
  next
    case False
    with ne have gt: "m < T ! j" by simp
    have "\<forall>x \<in> set (drop j T). m < x"
    proof
      fix x assume "x \<in> set (drop j T)"
      then obtain k where "k < length (drop j T)" "drop j T ! k = x"
        by (auto simp: in_set_conv_nth)
      then have "x = T ! (j + k)" "j + k < length T" by auto
      with assms(1) have "T ! j \<le> x" by (simp add: sorted_nth_mono)
      with gt show "m < x" by simp
    qed
    then have "filter (\<lambda>x. m < x) (drop j T) = drop j T"
      by (auto simp: filter_id_conv)
    moreover have "filter (\<lambda>x. m < x) T =
        filter (\<lambda>x. m < x) (take j T) @ filter (\<lambda>x. m < x) (drop j T)"
      by (metis append_take_drop_id filter_append)
    ultimately have "length (filter (\<lambda>x. m < x) T) \<ge> length (drop j T)"
      by simp
    with assms(2,4) show False by simp
  qed
qed

lemma count_sort:
  fixes xs :: "real list"
  shows "length (filter P (sort xs)) = length (filter P xs)"
  by (simp add: filter_sort)

lemma median_unfold:
  "median s =
     (if dropna s = [] then None
      else if odd (length (dropna s)) then Some (sort (dropna s) ! (length (dropna s) div 2))
      else Some ((sort (dropna s) ! (length (dropna s) div 2 - 1)
                  + sort (dropna s) ! (length (dropna s) div 2)) / 2))"
  unfolding median_def Let_def length_sort by simp

text \<open>The median splits the observations: at most half of them on either side.\<close>

lemma median_halves:
  assumes "median s = Some m"
  shows "length (filter (\<lambda>x. x < m) (dropna s)) \<le> length (dropna s) div 2"
    and "length (filter (\<lambda>x. m < x) (dropna s)) \<le> length (dropna s) div 2"
proof -
  let ?S = "sort (dropna s)"
  let ?n = "length (dropna s)"
  have n: "length ?S = ?n" by simp
  have srt: "sorted ?S" by simp
  from assms have pos: "?n \<noteq> 0"
    by (auto simp: median_unfold split: if_splits)
  have below: "length (filter (\<lambda>x. x < m) ?S) \<le> ?n div 2"
    and above: "length (filter (\<lambda>x. m < x) ?S) \<le> ?n div 2"
  proof -
    show "length (filter (\<lambda>x. x < m) ?S) \<le> ?n div 2"
    proof (cases "odd ?n")
      case True
      with assms pos have "?S ! (?n div 2) = m"
        by (simp add: median_unfold)
      then have "m \<le> ?S ! (?n div 2)" by simp
      moreover have "?n div 2 < length ?S" using pos by simp
      ultimately show ?thesis using srt by (intro sorted_count_below)
    next
      case False
      with assms pos have m: "m = (?S ! (?n div 2 - 1) + ?S ! (?n div 2)) / 2"
        by (simp add: median_unfold)
      have h: "?n div 2 < length ?S" using pos by simp
      have "?S ! (?n div 2 - 1) \<le> ?S ! (?n div 2)"
        using srt h by (intro sorted_nth_mono) simp_all
      with m have "m \<le> ?S ! (?n div 2)" by simp
      with srt h show ?thesis by (intro sorted_count_below)
    qed
    show "length (filter (\<lambda>x. m < x) ?S) \<le> ?n div 2"
    proof (cases "odd ?n")
      case True
      with assms pos have "?S ! (?n div 2) = m"
        by (simp add: median_unfold)
      then have "?S ! (?n div 2) \<le> m" by simp
      moreover have "?n div 2 < length ?S" using pos by simp
      ultimately have "?n div 2 + length (filter (\<lambda>x. m < x) ?S) < length ?S"
        using srt by (intro sorted_count_above)
      with True show ?thesis unfolding n by presburger
    next
      case False
      with assms pos have m: "m = (?S ! (?n div 2 - 1) + ?S ! (?n div 2)) / 2"
        by (simp add: median_unfold)
      have "0 < ?n" using pos by simp
      then have h: "?n div 2 - 1 < length ?S" "?n div 2 < length ?S"
        unfolding n by presburger+
      have "?S ! (?n div 2 - 1) \<le> ?S ! (?n div 2)"
        using srt h by (intro sorted_nth_mono) simp_all
      with m have "?S ! (?n div 2 - 1) \<le> m" by simp
      with srt h(1) have "?n div 2 - 1 + length (filter (\<lambda>x. m < x) ?S) < length ?S"
        by (intro sorted_count_above)
      with False pos show ?thesis unfolding n by presburger
    qed
  qed
  from below show "length (filter (\<lambda>x. x < m) (dropna s)) \<le> ?n div 2"
    by (simp add: count_sort)
  from above show "length (filter (\<lambda>x. m < x) (dropna s)) \<le> ?n div 2"
    by (simp add: count_sort)
qed

lemma fill_counts:
  "length (dropna (fillna_scalar (Some c) s)) = length s"
  "filter (\<lambda>x. x < c) (dropna (fillna_scalar (Some c) s)) = filter (\<lambda>x. x < c) (dropna s)"
  "filter (\<lambda>x. c < x) (dropna (fillna_scalar (Some c) s)) = filter (\<lambda>x. c < x) (dropna s)"
  by (induction s rule: dropna.induct; simp add: fillna_scalar_def)+

lemma fill_nothing: "None \<notin> set s \<Longrightarrow> fillna_scalar d s = s"
  by (induction s rule: dropna.induct) (simp_all add: fillna_scalar_def)

lemma length_dropna: "length (dropna s) \<le> length s"
  by (induction s rule: dropna.induct) simp_all

lemma length_dropna_missing: "None \<in> set s \<Longrightarrow> length (dropna s) < length s"
proof (induction s rule: dropna.induct)
  case 1
  then show ?case by simp
next
  case (2 s)
  show ?case using length_dropna [of s] by simp
next
  case (3 x s)
  then show ?case by simp
qed

lemma length_dropna_full: "None \<notin> set s \<Longrightarrow> length (dropna s) = length s"
  by (induction s rule: dropna.induct) simp_all

text \<open>
  Filling the missing cells of a column with its median (or with 0 when it has none) leaves
  a column whose median is the value filled in.
\<close>

lemma median_fill_median:
  assumes "s \<noteq> []"
  shows "median (fill_median s) = Some (case median s of None \<Rightarrow> 0 | Some m \<Rightarrow> m)"
proof (cases "None \<in> set s")
  case False
  then have same: "fill_median s = s" by (simp add: fill_median_def fill_nothing)
  from False assms have "dropna s \<noteq> []"
    using length_dropna_full [of s] by auto
  then have "median s =
      Some (if odd (length (dropna s)) then sort (dropna s) ! (length (dropna s) div 2)
            else (sort (dropna s) ! (length (dropna s) div 2 - 1)
                  + sort (dropna s) ! (length (dropna s) div 2)) / 2)"
    by (simp add: median_unfold)
  then obtain m where "median s = Some m"
    by blast
  then show ?thesis by (simp add: same)
next
  case True
  define c where "c = (case median s of None \<Rightarrow> 0 | Some m \<Rightarrow> m)"
  define T where "T = sort (dropna (fill_median s))"
  let ?n = "length (dropna s)"
  let ?N = "length s"
  have fill: "fill_median s = fillna_scalar (Some c) s"
    by (simp add: fill_median_def c_def)
  have lenT: "length T = ?N" and srt: "sorted T"
    by (simp_all add: T_def fill fill_counts)
  have below: "length (filter (\<lambda>x. x < c) T) = length (filter (\<lambda>x. x < c) (dropna s))"
    and above: "length (filter (\<lambda>x. c < x) T) = length (filter (\<lambda>x. c < x) (dropna s))"
    by (simp_all add: T_def count_sort fill fill_counts)
  have halves: "length (filter (\<lambda>x. x < c) (dropna s)) \<le> ?n div 2"
    "length (filter (\<lambda>x. c < x) (dropna s)) \<le> ?n div 2"
  proof -
    show "length (filter (\<lambda>x. x < c) (dropna s)) \<le> ?n div 2"
    proof (cases "median s")
      case None
      then have "dropna s = []" by (auto simp: median_unfold split: if_splits)
      then show ?thesis by simp
    next
      case (Some m)
      then show ?thesis using median_halves(1) [OF Some] by (simp add: c_def)
    qed
    show "length (filter (\<lambda>x. c < x) (dropna s)) \<le> ?n div 2"
    proof (cases "median s")
      case None
      then have "dropna s = []" by (auto simp: median_unfold split: if_splits)
      then show ?thesis by simp
    next
      case (Some m)
      then show ?thesis using median_halves(2) [OF Some] by (simp add: c_def)
    qed
  qed
  have less: "?n < ?N" by (rule length_dropna_missing [OF True])
  have mid: "T ! j = c" if "?n div 2 \<le> j" "j + ?n div 2 < ?N" for j
  proof (rule sorted_middle_value [OF srt])
    show "j < length T" using that lenT by simp
    show "length (filter (\<lambda>x. x < c) T) \<le> j" using that halves(1) below by simp
    show "j + length (filter (\<lambda>x. c < x) T) < length T"
      using that halves(2) above lenT by simp
  qed
  have obs2: "length (dropna (fill_median s)) = ?N"
    by (simp add: fill fill_counts)
  with assms have obs1: "dropna (fill_median s) \<noteq> []"
    by (metis length_0_conv)
  note obs = obs1 obs2
  show ?thesis
  proof (cases "odd ?N")
    case True
    have "T ! (?N div 2) = c"
      using less True by (intro mid) presburger+
    with True obs show ?thesis
      by (simp add: median_unfold T_def [symmetric] c_def)
  next
    case False
    have "T ! (?N div 2 - 1) = c"
      using less False by (intro mid) presburger+
    moreover have "T ! (?N div 2) = c"
      using less False by (intro mid) presburger+
    ultimately show ?thesis using False obs
      by (simp add: median_unfold T_def [symmetric] c_def)
  qed
qed


subsection \<open>The shot averages of a frame\<close>

lemma shot_names:
  assumes "(avg, s, value_col, w) \<in> set (shot_columns window)"
  shows "value_col \<notin> fst ` set (shot_columns window)"
    and "value_col \<in> {''home_shots_for'', ''away_shots_for'',
                       ''home_shots_allowed'', ''away_shots_allowed''}"
    and "w = window \<or> w = min 3 window"
  using assms by (auto simp: shot_columns_def)

lemma distinct_shot: "distinct (map fst (shot_columns window))"
  by (simp add: shot_columns_def)

lemma fold_quadruples:
  "fold (\<lambda>(a, b, c, d). assign a (f b c d)) specs acc
   = fold (\<lambda>x. assign (fst x) (fst (snd x)))
          (map (\<lambda>(a, b, c, d). (a, f b c d, v b c d)) specs) acc"
  by (simp add: fold_map comp_def split_def)

text \<open>A frame without one of the two shot columns is left as it is.\<close>

lemma prepare_shot_features_absent:
  assumes "\<not> {''home_shots_for'', ''away_shots_for''} \<subseteq> columns fr"
  shows "prepare_shot_features window fr = Inr fr"
  using assms by (simp add: prepare_shot_features_def)

text \<open>
  The frame after \<open>_prepare_shot_features\<close>, when the frame has both shot columns and the
  window is not 0: no exception, and every averaged column is the prior rolling mean, under
  the team names of its side, of its filled shot column.
\<close>

lemma prepare_shot_features_columns:
  assumes w: "0 < window"
    and sh: "{''home_shots_for'', ''away_shots_for''} \<subseteq> columns fr"
  shows "\<exists>g. prepare_shot_features window fr = Inr g
           \<and> length (rows g) = length (rows fr)
           \<and> (\<forall>x \<in> set (shot_columns window).
                 column (fst x) (rows g) =
                   map Some (prior_rolling_values (map (side_name (fst (snd x))) (rows fr))
                     (fill_median (column (shot_metric (fst (snd (snd x)))) (rows fr)))
                     (snd (snd (snd x)))))"
proof -
  let ?hf = "''home_shots_for''"
  let ?af = "''away_shots_for''"
  let ?ha = "''home_shots_allowed''"
  let ?aa = "''away_shots_allowed''"
  define f1 where "f1 = set_column ?hf (fill_median (column ?hf (rows fr))) fr"
  define f2 where "f2 = set_column ?af (fill_median (column ?af (rows f1))) f1"
  define f3 where "f3 = set_column ?ha (column ?af (rows f2)) f2"
  define f4 where "f4 = set_column ?aa (column ?hf (rows f3)) f3"
  define W where "W = fst ` set (shot_columns window)"
  define val where "val = (\<lambda>s value_col n.
      map Some (prior_rolling_values (map (side_name s) (rows fr))
                  (fill_median (column (shot_metric value_col) (rows fr))) n))"
  define specs where "specs = map (\<lambda>(avg, s, value_col, n).
      (avg, prior_mean_of s value_col n, val s value_col n)) (shot_columns window)"
  have a1: "agrees {?hf} fr f1"
    unfolding f1_def using agrees_set_column [OF agrees_refl [of "{}" fr]] by simp
  have len1: "length (rows f1) = length (rows fr)" using a1 by (simp add: agrees_def)
  have a2: "agrees {?af, ?hf} fr f2"
    unfolding f2_def using agrees_set_column [OF a1] len1 by simp
  have len2: "length (rows f2) = length (rows fr)" using a2 by (simp add: agrees_def)
  have a3: "agrees {?ha, ?af, ?hf} fr f3"
    unfolding f3_def using agrees_set_column [OF a2] len2 by simp
  have len3: "length (rows f3) = length (rows fr)" using a3 by (simp add: agrees_def)
  have a4: "agrees {?aa, ?ha, ?af, ?hf} fr f4"
    unfolding f4_def using agrees_set_column [OF a3] len3 by simp
  have len4: "length (rows f4) = length (rows fr)" using a4 by (simp add: agrees_def)
  have col1: "column m (rows f1) = (if m = ?hf then fill_median (column ?hf (rows fr))
                                    else column m (rows fr))" for m
    unfolding f1_def by (rule set_column_rows(2)) simp
  have col2: "column m (rows f2) = (if m = ?af then fill_median (column ?af (rows f1))
                                    else column m (rows f1))" for m
    unfolding f2_def by (rule set_column_rows(2)) (simp add: len1)
  have col3: "column m (rows f3) = (if m = ?ha then column ?af (rows f2)
                                    else column m (rows f2))" for m
    unfolding f3_def by (rule set_column_rows(2)) (simp add: len2)
  have col4: "column m (rows f4) = (if m = ?aa then column ?hf (rows f3)
                                    else column m (rows f3))" for m
    unfolding f4_def by (rule set_column_rows(2)) (simp add: len3)
  have val4: "column value_col (rows f4) = fill_median (column (shot_metric value_col) (rows fr))"
    if "value_col \<in> {?hf, ?af, ?ha, ?aa}" for value_col
    using that by (auto simp: col4 col3 col2 col1 shot_metric_def)
  have cols4: "columns f4 = insert ?aa (insert ?ha (insert ?af (insert ?hf (columns fr))))"
    by (simp add: f4_def f3_def f2_def f1_def)
  have run: "prepare_shot_features window fr =
      fold (\<lambda>x. assign (fst x) (fst (snd x))) specs (Inr f4)"
    unfolding prepare_shot_features_def Let_def specs_def
    using sh
    by (simp only: f1_def [symmetric] f2_def [symmetric] f3_def [symmetric] f4_def [symmetric]
        if_False simp_thms fold_quadruples [where v = val])
  have comp: "fst (snd x) g = Inr (snd (snd x)) \<and> length (snd (snd x)) = length (rows f4)"
    if x: "x \<in> set specs" and ag: "agrees W f4 g" for x g
  proof -
    from x obtain avg s value_col n where m: "(avg, s, value_col, n) \<in> set (shot_columns window)"
      and xe: "x = (avg, prior_mean_of s value_col n, val s value_col n)"
      by (auto simp: specs_def)
    note n = shot_names [OF m]
    have sub: "columns f4 \<subseteq> columns g"
      and same: "\<And>n. n \<notin> W \<Longrightarrow> column n (rows g) = column n (rows f4)"
      using ag by (simp_all add: agrees_def)
    have inc: "value_col \<in> columns g" using n(2) sub cols4 by auto
    have cv: "column value_col (rows g) = fill_median (column (shot_metric value_col) (rows fr))"
      using same [of value_col] n(1) val4 [OF n(2)] by (simp add: W_def)
    have keys: "map (side_name s) (rows g) = map (side_name s) (rows fr)"
      using agrees_side(1) [OF ag, of s] agrees_side(1) [OF a4, of s] by simp
    have pos: "0 < n" using n(3) w by auto
    have "prior_mean_of s value_col n g = Inr (val s value_col n)"
      using pos by (simp add: prior_mean_of_def read_column_def inc cv keys
          prior_rolling_mean_def val_def)
    moreover have "length (val s value_col n) = length (rows f4)"
      by (simp add: val_def len4)
    ultimately show ?thesis by (simp add: xe)
  qed
  have names: "fst ` set specs = W"
    by (force simp: specs_def W_def)
  have dist: "distinct (map fst specs)"
    using distinct_shot [of window] by (simp add: specs_def comp_def split_def)
  from fold_assign [of specs W f4, OF comp] names dist
  obtain g where g: "fold (\<lambda>x. assign (fst x) (fst (snd x))) specs (Inr f4) = Inr g"
    and ag: "agrees (fst ` set specs) f4 g"
    and vs: "\<forall>x \<in> set specs. column (fst x) (rows g) = snd (snd x)"
    by auto
  have "length (rows g) = length (rows fr)"
    using ag len4 by (simp add: agrees_def)
  moreover have "column (fst x) (rows g) =
      val (fst (snd x)) (fst (snd (snd x))) (snd (snd (snd x)))"
    if "x \<in> set (shot_columns window)" for x
  proof -
    obtain avg s value_col n where xe: "x = (avg, s, value_col, n)" by (cases x) auto
    with that have "(avg, prior_mean_of s value_col n, val s value_col n) \<in> set specs"
      by (force simp: specs_def)
    with vs show ?thesis by (auto simp: xe)
  qed
  ultimately show ?thesis
    using run g by (auto simp: val_def)
qed

text \<open>With a window of 0 and a row in the frame, the first rolling mean raises.\<close>

lemma prepare_shot_features_window_0:
  assumes "{''home_shots_for'', ''away_shots_for''} \<subseteq> columns fr" and "rows fr \<noteq> []"
  shows "prepare_shot_features 0 fr = Inl RollingWindowError"
proof -
  let ?hf = "''home_shots_for''"
  let ?af = "''away_shots_for''"
  let ?ha = "''home_shots_allowed''"
  let ?aa = "''away_shots_allowed''"
  define f1 where "f1 = set_column ?hf (fill_median (column ?hf (rows fr))) fr"
  define f2 where "f2 = set_column ?af (fill_median (column ?af (rows f1))) f1"
  define f3 where "f3 = set_column ?ha (column ?af (rows f2)) f2"
  define f4 where "f4 = set_column ?aa (column ?hf (rows f3)) f3"
  have len: "length (rows f4) = length (rows fr)"
    by (simp add: f4_def f3_def f2_def f1_def set_column_rows)
  then have ne: "rows f4 \<noteq> []" using assms(2) by auto
  have "?hf \<in> columns f4" by (simp add: f4_def f3_def f2_def f1_def)
  then have first: "prior_mean_of Home ?hf 0 f4 = Inl RollingWindowError"
    using ne by (simp add: prior_mean_of_def read_column_def prior_rolling_mean_def)
  have stay: "fold (\<lambda>(avg, s, value_col, n). assign avg (prior_mean_of s value_col n)) specs (Inl e)
      = Inl e" for specs e
    by (induction specs) (simp_all add: assign_def split_def)
  have "prepare_shot_features 0 fr =
      fold (\<lambda>(avg, s, value_col, n). assign avg (prior_mean_of s value_col n))
           (shot_columns 0) (Inr f4)"
    unfolding prepare_shot_features_def Let_def
    using assms(1)
    by (simp only: f1_def [symmetric] f2_def [symmetric] f3_def [symmetric] f4_def [symmetric]
        if_False simp_thms)
  also have "\<dots> = Inl RollingWindowError"
    unfolding shot_columns_def by (simp add: assign_def first stay)
  finally show ?thesis .
qed

text \<open>
  Claim C10. In the prior rolling mean of a column grouped by team, with a window greater
  than 0, a row with no earlier row of its team gets the median of the whole column, and 0
  only when the column has no median. So do the shot averages of the feature store, which are
  computed when the frame has both shot columns: on a row whose team has no earlier row on the
  same side (in particular a team that has not appeared before), a shot average is the median
  of its shot column over the whole table, and 0 only when the column has no value at all. The
  value is in general not 0, whereas the rolling sums of the view start at 0.
\<close>

theorem cold_start_shot_mean:
  "(0 < w \<and> length vs = length ks \<and> j < length ks \<and> ks ! j \<notin> set (take j ks) \<longrightarrow>
      prior_rolling_mean ks vs w = Inr (prior_rolling_values ks vs w)
      \<and> prior_rolling_values ks vs w ! j = (case median vs of None \<Rightarrow> 0 | Some m \<Rightarrow> m))
   \<and> (0 < window \<and> {''home_shots_for'', ''away_shots_for''} \<subseteq> columns fr
      \<and> i < length (rows fr) \<and> (avg, s, value_col, n) \<in> set (shot_columns window)
      \<and> (\<forall>r \<in> set (take i (rows fr)). side_name s r \<noteq> side_name s (rows fr ! i)) \<longrightarrow>
        cell_after (prepare_shot_features window fr) avg i =
          Inr (Some (case median (column (shot_metric value_col) (rows fr)) of
                       None \<Rightarrow> 0 | Some m \<Rightarrow> m)))"
proof (intro conjI impI)
  assume a: "0 < w \<and> length vs = length ks \<and> j < length ks \<and> ks ! j \<notin> set (take j ks)"
  then show "prior_rolling_mean ks vs w = Inr (prior_rolling_values ks vs w)"
    by (simp add: prior_rolling_mean_def)
  from a show "prior_rolling_values ks vs w ! j = (case median vs of None \<Rightarrow> 0 | Some m \<Rightarrow> m)"
    by (simp add: prior_rolling_values_first)
next
  assume a: "0 < window \<and> {''home_shots_for'', ''away_shots_for''} \<subseteq> columns fr
      \<and> i < length (rows fr) \<and> (avg, s, value_col, n) \<in> set (shot_columns window)
      \<and> (\<forall>r \<in> set (take i (rows fr)). side_name s r \<noteq> side_name s (rows fr ! i))"
  then have w: "0 < window" and sh: "{''home_shots_for'', ''away_shots_for''} \<subseteq> columns fr"
    and i: "i < length (rows fr)" and m: "(avg, s, value_col, n) \<in> set (shot_columns window)"
    and cold: "\<forall>r \<in> set (take i (rows fr)). side_name s r \<noteq> side_name s (rows fr ! i)"
    by blast+
  let ?ks = "map (side_name s) (rows fr)"
  let ?col = "column (shot_metric value_col) (rows fr)"
  from prepare_shot_features_columns [OF w sh]
  obtain g where g: "prepare_shot_features window fr = Inr g"
    and len: "length (rows g) = length (rows fr)"
    and vs: "\<forall>x \<in> set (shot_columns window).
                 column (fst x) (rows g) =
                   map Some (prior_rolling_values (map (side_name (fst (snd x))) (rows fr))
                     (fill_median (column (shot_metric (fst (snd (snd x)))) (rows fr)))
                     (snd (snd (snd x))))"
    by blast
  from vs m have col: "column avg (rows g) =
      map Some (prior_rolling_values ?ks (fill_median ?col) n)"
    by force
  have cell: "cell_after (prepare_shot_features window fr) avg i = Inr (column avg (rows g) ! i)"
    using g i len by (intro cell_after_column) simp_all
  have lenc: "length (fill_median ?col) = length ?ks" by simp
  have ik: "i < length ?ks" using i by simp
  have first: "?ks ! i \<notin> set (take i ?ks)"
    using i cold by (auto simp: take_map)
  have "?col \<noteq> []" using i by (auto simp: column_def)
  then have med: "median (fill_median ?col) =
      Some (case median ?col of None \<Rightarrow> 0 | Some m \<Rightarrow> m)"
    by (rule median_fill_median)
  have "prior_rolling_values ?ks (fill_median ?col) n ! i =
      (case median (fill_median ?col) of None \<Rightarrow> 0 | Some m \<Rightarrow> m)"
    by (rule prior_rolling_values_first [OF lenc ik first])
  then have "prior_rolling_values ?ks (fill_median ?col) n ! i =
      (case median ?col of None \<Rightarrow> 0 | Some m \<Rightarrow> m)"
    by (simp only: med option.case)
  then show "cell_after (prepare_shot_features window fr) avg i =
          Inr (Some (case median ?col of None \<Rightarrow> 0 | Some m \<Rightarrow> m))"
    using i by (simp add: cell col)
qed

theorem cold_start_shot_mean_witness:
  "cell_after (prepare_shot_features 5 stat_frame) ''home_shots_for_avg5'' 3 = Inr (Some 12)
   \<and> median (column ''home_shots_for'' (rows stat_frame)) = Some 12
   \<and> row_get (rows stat_frame ! 3) ''home_shots_for'' = None
   \<and> {''home_shots_for'', ''away_shots_for''} \<subseteq> columns stat_frame
   \<and> prior_rolling_mean [''Arsenal'', ''Leeds'', ''Arsenal'', ''Arsenal'']
        [Some 10, Some 14, Some 12, None] 5
       = Inr (prior_rolling_values [''Arsenal'', ''Leeds'', ''Arsenal'', ''Arsenal'']
                [Some 10, Some 14, Some 12, None] 5)
   \<and> prior_rolling_values [''Arsenal'', ''Leeds'', ''Arsenal'', ''Arsenal'']
        [Some 10, Some 14, Some 12, None] 5 ! 1 = 12
   \<and> add_rolling_features (compute_team_view demo_matches) Points 5 ! 0 = 0"
proof -
  let ?ks = "[''Arsenal'', ''Leeds'', ''Arsenal'', ''Arsenal'']"
  let ?vs = "[Some 10, Some 14, Some 12, None :: real option]"
  have k: "(0::nat) < 5 \<and> length ?vs = length ?ks \<and> (1::nat) < length ?ks
      \<and> ?ks ! 1 \<notin> set (take 1 ?ks)"
    by simp
  have sh: "{''home_shots_for'', ''away_shots_for''} \<subseteq> columns stat_frame"
    by (simp add: stat_frame_def)
  have t: "(0::nat) < 5 \<and> {''home_shots_for'', ''away_shots_for''} \<subseteq> columns stat_frame
      \<and> (3::nat) < length (rows stat_frame)
      \<and> (''home_shots_for_avg5'', Home, ''home_shots_for'', 5) \<in> set (shot_columns 5)
      \<and> (\<forall>r \<in> set (take 3 (rows stat_frame)).
            side_name Home r \<noteq> side_name Home (rows stat_frame ! 3))"
    using sh by (simp add: stat_frame_def stat_row_def shot_columns_def numeral_3_eq_3)
  have m: "median ?vs = Some 12" by code_simp
  have col: "column (shot_metric ''home_shots_for'') (rows stat_frame) = ?vs"
    "column ''home_shots_for'' (rows stat_frame) = ?vs"
    by code_simp+
  have own: "row_get (rows stat_frame ! 3) ''home_shots_for'' = None" by code_simp
  have r: "add_rolling_features (compute_team_view demo_matches) Points 5 ! 0 = 0" by code_simp
  note th = cold_start_shot_mean [where vs = ?vs and ks = ?ks and j = 1 and w = 5
      and fr = stat_frame and i = 3 and avg = "''home_shots_for_avg5''" and s = Home
      and value_col = "''home_shots_for''" and n = 5 and window = 5]
  from th k have "prior_rolling_mean ?ks ?vs 5 = Inr (prior_rolling_values ?ks ?vs 5)
      \<and> prior_rolling_values ?ks ?vs 5 ! 1 = (case median ?vs of None \<Rightarrow> 0 | Some m \<Rightarrow> m)"
    by blast
  moreover from th t have "cell_after (prepare_shot_features 5 stat_frame) ''home_shots_for_avg5'' 3 =
      Inr (Some (case median (column (shot_metric ''home_shots_for'') (rows stat_frame)) of
                   None \<Rightarrow> 0 | Some m \<Rightarrow> m))"
    by blast
  ultimately show ?thesis using m col own sh r by simp
qed

end
